theory Spec2Isabelle
  imports Complex_Main "HOL-Library.Sublist"
begin

section \<open>The provenance ledger (blockchain.py)\<close>

subsection \<open>Blocks\<close>

text \<open>
  A \<open>Block\<close> object has the seven attributes its constructor sets and, once it has been
  mined, created as genesis or loaded, an eighth attribute \<open>hash\<close>. The constructor does
  not set \<open>hash\<close>, so the field is optional. Python's unbounded integers are \<open>int\<close>;
  the timestamp (a float that the ledger only stores) is a \<open>real\<close>.
\<close>

record block =
  index :: int
  timestamp :: real
  content_hash :: string
  creator_public_key :: string
  signature :: string
  previous_hash :: string
  nonce :: int
  hash :: "string option"

text \<open>
  The dictionary built by \<open>to_dict\<close>, which is also the shape of one entry of the
  persisted document's \<open>chain\<close> array. A key that is absent is \<open>None\<close>; the values
  have the types the ledger writes.
\<close>

record block_dict =
  d_index :: "int option"
  d_timestamp :: "real option"
  d_content_hash :: "string option"
  d_creator_public_key :: "string option"
  d_signature :: "string option"
  d_previous_hash :: "string option"
  d_nonce :: "int option"

text \<open>
  \<open>hashlib.sha256(json.dumps(d, sort_keys=True, default=str).encode()).hexdigest()\<close>
  is library code: it is a parameter of the model, a function from the dictionary to the
  digest string.
\<close>

type_synonym digest = "block_dict \<Rightarrow> string"

definition Block :: "int \<Rightarrow> real \<Rightarrow> string \<Rightarrow> string \<Rightarrow> string \<Rightarrow> string \<Rightarrow> int \<Rightarrow> block" where
  "Block i ts ch pk sg ph n =
     \<lparr>index = i, timestamp = ts, content_hash = ch, creator_public_key = pk,
      signature = sg, previous_hash = ph, nonce = n, hash = None\<rparr>"

definition to_dict :: "block \<Rightarrow> block_dict" where
  "to_dict b =
     \<lparr>d_index = Some (index b), d_timestamp = Some (timestamp b),
      d_content_hash = Some (content_hash b),
      d_creator_public_key = Some (creator_public_key b),
      d_signature = Some (signature b), d_previous_hash = Some (previous_hash b),
      d_nonce = Some (nonce b)\<rparr>"

definition calculate_hash :: "digest \<Rightarrow> block \<Rightarrow> string" where
  "calculate_hash H b = H (to_dict b)"

subsection \<open>Errors, storage and the ledger object\<close>

datatype error =
    KeyError string
  | AttributeError string
  | ValueError string
  | ReadError string
  | OSError string
  | DetectorError string

text \<open>\<open>str(e)\<close> of an exception, as the load handler prints it.\<close>

fun str_of_error :: "error \<Rightarrow> string" where
  "str_of_error (KeyError k) = [CHR 0x27] @ k @ [CHR 0x27]"
| "str_of_error (AttributeError m) = m"
| "str_of_error (ValueError m) = m"
| "str_of_error (ReadError m) = m"
| "str_of_error (OSError m) = m"
| "str_of_error (DetectorError m) = m"

record ledger_doc =
  doc_chain :: "block_dict list option"
  doc_length :: "nat option"
  doc_valid :: "bool option"

text \<open>
  What is stored at \<open>blockchain_file\<close>: nothing; something the loader gives up on before
  it looks at any block, because \<open>open\<close> or \<open>json.load\<close> raises or the parsed value
  is not an object (the text of the exception is kept); or a parsed document.
\<close>

datatype file_content =
    NoFile
  | Unreadable string
  | Document ledger_doc

text \<open>
  What happens when \<open>save_blockchain\<close> writes to \<open>blockchain_file\<close>: the write
  succeeds; \<open>os.makedirs\<close> raises (a bare file name has the directory name \<open>''\<close>);
  \<open>open(..., 'w')\<close> raises (the path is a directory, or the file is read-only); or the
  file is opened, and so truncated, and \<open>json.dump\<close> raises before the document is
  complete. Each failure is an \<open>OSError\<close> with its text; the last one also carries the
  text with which a later \<open>json.load\<close> rejects the truncated file.
\<close>

datatype disk =
    Writable
  | MakedirsFails string
  | OpenFails string
  | DumpFails string string

text \<open>
  The \<open>Blockchain\<close> object together with the parts of the outside world it touches:
  the content of its file, how the file system answers a write, and the lines it has
  printed.
\<close>

record blockchain =
  chain :: "block list"
  difficulty :: nat
  ledger_file :: file_content
  disk :: disk
  printed :: "string list"

subsection \<open>Proof of work and validation\<close>

text \<open>\<open>s.startswith('0' * d)\<close>\<close>

definition meets_difficulty :: "nat \<Rightarrow> string \<Rightarrow> bool" where
  "meets_difficulty d s = prefix (replicate d CHR ''0'') s"

text \<open>
  The \<open>while\<close> loop of \<open>proof_of_work\<close>. It has no bound in the source, so it is a
  partial function: \<open>None\<close> is the loop that never ends.
\<close>

partial_function (option) pow_loop :: "digest \<Rightarrow> nat \<Rightarrow> block \<Rightarrow> block option" where
  "pow_loop H d b =
     (if meets_difficulty d (calculate_hash H b) then Some b
      else pow_loop H d (b\<lparr>nonce := nonce b + 1\<rparr>))"

definition proof_of_work :: "digest \<Rightarrow> nat \<Rightarrow> block \<Rightarrow> block option" where
  "proof_of_work H d b =
     (case pow_loop H d (b\<lparr>nonce := 0\<rparr>) of
        None \<Rightarrow> None
      | Some b' \<Rightarrow> Some (b'\<lparr>hash := Some (calculate_hash H b')\<rparr>))"

definition validate_block :: "digest \<Rightarrow> nat \<Rightarrow> block \<Rightarrow> block \<Rightarrow> bool" where
  "validate_block H d new_block previous_block =
     (if index previous_block + 1 \<noteq> index new_block then False
      else if calculate_hash H previous_block \<noteq> previous_hash new_block then False
      else if \<not> meets_difficulty d (calculate_hash H new_block) then False
      else True)"

text \<open>
  The loop of \<open>is_valid_chain\<close> over \<open>i = 1 .. len - 1\<close>, with \<open>chain[i-1]\<close> carried
  along. Reading \<open>hash\<close> from a block that has none raises \<open>AttributeError\<close>.
\<close>

fun valid_from :: "digest \<Rightarrow> nat \<Rightarrow> block \<Rightarrow> block list \<Rightarrow> error + bool" where
  "valid_from H d previous_block [] = Inr True"
| "valid_from H d previous_block (current_block # rest) =
     (if \<not> validate_block H d current_block previous_block then Inr False
      else (case hash current_block of
              None \<Rightarrow> Inl (AttributeError ''hash'')
            | Some h \<Rightarrow>
                if calculate_hash H current_block \<noteq> h then Inr False
                else valid_from H d current_block rest))"

definition is_valid_chain :: "digest \<Rightarrow> nat \<Rightarrow> block list \<Rightarrow> error + bool" where
  "is_valid_chain H d c =
     (case c of [] \<Rightarrow> Inr True | b # rest \<Rightarrow> valid_from H d b rest)"

subsection \<open>Saving and loading\<close>

text \<open>\<open>os.makedirs(os.path.dirname(self.blockchain_file), exist_ok=True)\<close>\<close>

definition makedirs :: "disk \<Rightarrow> error + unit" where
  "makedirs dk = (case dk of MakedirsFails m \<Rightarrow> Inl (OSError m) | _ \<Rightarrow> Inr ())"

text \<open>
  \<open>with open(self.blockchain_file, 'w') as f: json.dump(blockchain_data, f, ...)\<close>:
  the outcome and what the file holds afterwards.
\<close>

definition write_document :: "disk \<Rightarrow> file_content \<Rightarrow> ledger_doc \<Rightarrow> (error + unit) \<times> file_content" where
  "write_document dk old doc =
     (case dk of
        OpenFails m \<Rightarrow> (Inl (OSError m), old)
      | DumpFails m t \<Rightarrow> (Inl (OSError m), Unreadable t)
      | _ \<Rightarrow> (Inr (), Document doc))"

text \<open>
  \<open>save_blockchain\<close>, in the order of the source: the directory, then the dictionary
  (whose \<open>valid\<close> entry calls \<open>is_valid_chain\<close>), then the write. Nothing is caught.
\<close>

definition save_blockchain :: "digest \<Rightarrow> blockchain \<Rightarrow> (error + unit) \<times> blockchain" where
  "save_blockchain H st =
     (case makedirs (disk st) of
        Inl e \<Rightarrow> (Inl e, st)
      | Inr u \<Rightarrow>
          (case is_valid_chain H (difficulty st) (chain st) of
             Inl e \<Rightarrow> (Inl e, st)
           | Inr v \<Rightarrow>
               (let blockchain_data =
                      \<lparr>doc_chain = Some (map to_dict (chain st)),
                       doc_length = Some (length (chain st)),
                       doc_valid = Some v\<rparr>;
                    w = write_document (disk st) (ledger_file st) blockchain_data
                in (fst w, st\<lparr>ledger_file := snd w\<rparr>))))"

text \<open>
  One iteration of the loading loop: the six subscripts in the order the source
  evaluates them (a missing key raises \<open>KeyError\<close>), \<open>get('nonce', 0)\<close>, and the
  recomputed hash.
\<close>

definition block_of_dict :: "digest \<Rightarrow> block_dict \<Rightarrow> error + block" where
  "block_of_dict H e =
     (case d_index e of None \<Rightarrow> Inl (KeyError ''index'') | Some i \<Rightarrow>
     (case d_timestamp e of None \<Rightarrow> Inl (KeyError ''timestamp'') | Some ts \<Rightarrow>
     (case d_content_hash e of None \<Rightarrow> Inl (KeyError ''content_hash'') | Some ch \<Rightarrow>
     (case d_creator_public_key e of None \<Rightarrow> Inl (KeyError ''creator_public_key'') | Some pk \<Rightarrow>
     (case d_signature e of None \<Rightarrow> Inl (KeyError ''signature'') | Some sg \<Rightarrow>
     (case d_previous_hash e of None \<Rightarrow> Inl (KeyError ''previous_hash'') | Some ph \<Rightarrow>
        (let block = Block i ts ch pk sg ph (case d_nonce e of None \<Rightarrow> 0 | Some n \<Rightarrow> n)
         in Inr (block\<lparr>hash := Some (calculate_hash H block)\<rparr>))))))))"

fun load_blocks :: "digest \<Rightarrow> block_dict list \<Rightarrow> error + block list" where
  "load_blocks H [] = Inr []"
| "load_blocks H (e # es) =
     (case block_of_dict H e of
        Inl err \<Rightarrow> Inl err
      | Inr b \<Rightarrow> (case load_blocks H es of Inl err \<Rightarrow> Inl err | Inr bs \<Rightarrow> Inr (b # bs)))"

text \<open>
  The part of the \<open>try\<close> block after \<open>json.load\<close>: the blocks of the document, or
  the exception.
\<close>

definition read_document :: "digest \<Rightarrow> ledger_doc \<Rightarrow> error + block list" where
  "read_document H doc =
     (case doc_chain doc of
        None \<Rightarrow> Inl (KeyError ''chain'')
      | Some es \<Rightarrow> load_blocks H es)"

text \<open>The \<open>except Exception\<close> handler.\<close>

definition load_failed :: "error \<Rightarrow> blockchain \<Rightarrow> blockchain" where
  "load_failed e st =
     st\<lparr>chain := [],
        printed := printed st @ [''Error loading blockchain: '' @ str_of_error e]\<rparr>"

definition load_blockchain :: "digest \<Rightarrow> blockchain \<Rightarrow> blockchain" where
  "load_blockchain H st =
     (case ledger_file st of
        NoFile \<Rightarrow> st
      | Unreadable m \<Rightarrow> load_failed (ReadError m) st
      | Document doc \<Rightarrow>
          (case read_document H doc of
             Inr bs \<Rightarrow> st\<lparr>chain := bs\<rparr>
           | Inl e \<Rightarrow> load_failed e st))"

subsection \<open>Genesis, construction and append\<close>

definition create_genesis_block :: "digest \<Rightarrow> real \<Rightarrow> blockchain \<Rightarrow> (error + unit) \<times> blockchain" where
  "create_genesis_block H now st =
     (let genesis_block = Block 0 now (replicate 64 CHR ''0'') ''GENESIS'' ''GENESIS'' ''0'' 0;
          genesis_block = genesis_block\<lparr>hash := Some (calculate_hash H genesis_block)\<rparr>
      in save_blockchain H (st\<lparr>chain := chain st @ [genesis_block]\<rparr>))"

text \<open>
  \<open>Blockchain.__init__\<close>: \<open>f\<close> is what the file holds when the object is built,
  \<open>dk\<close> how the file system answers a write, \<open>now\<close> the clock read by
  \<open>create_genesis_block\<close> if it runs. An exception of \<open>create_genesis_block\<close> leaves
  the constructor.
\<close>

definition init :: "digest \<Rightarrow> file_content \<Rightarrow> disk \<Rightarrow> real \<Rightarrow> (error + unit) \<times> blockchain" where
  "init H f dk now =
     (let st = load_blockchain H
                 \<lparr>chain = [], difficulty = 2, ledger_file = f, disk = dk, printed = []\<rparr>
      in if length (chain st) = 0 then create_genesis_block H now st else (Inr (), st))"

text \<open>
  Lines 92 to 97 of \<open>add_block\<close>: validate the candidate against the tail, then append
  and save, or return \<open>False\<close>.
\<close>

definition commit_block :: "digest \<Rightarrow> blockchain \<Rightarrow> block \<Rightarrow> block \<Rightarrow> (error + bool) \<times> blockchain" where
  "commit_block H st new_block previous_block =
     (if validate_block H (difficulty st) new_block previous_block then
        (case save_blockchain H (st\<lparr>chain := chain st @ [new_block]\<rparr>) of
           (Inl e, st') \<Rightarrow> (Inl e, st')
         | (Inr u, st') \<Rightarrow> (Inr True, st'))
      else (Inr False, st))"

text \<open>
  \<open>add_block\<close>; \<open>now\<close> is the clock read when the candidate is built. The result is
  \<open>None\<close> when the mining loop never ends, otherwise the value returned (\<open>Inr\<close>) or
  the exception raised (\<open>Inl\<close>), with the state left behind.
\<close>

definition add_block ::
  "digest \<Rightarrow> real \<Rightarrow> blockchain \<Rightarrow> string \<Rightarrow> string \<Rightarrow> string \<Rightarrow> ((error + bool) \<times> blockchain) option" where
  "add_block H now st ch pk sg =
     (if length (chain st) = 0 then Some (Inr False, st)
      else
        let previous_block = last (chain st);
            new_block = Block (index previous_block + 1) now ch pk sg
                          (calculate_hash H previous_block) 0
        in (case proof_of_work H (difficulty st) new_block of
              None \<Rightarrow> None
            | Some mined \<Rightarrow> Some (commit_block H st mined previous_block)))"

text \<open>
  The ledgers the object's own operations produce: a genesis block created on an empty
  chain, then blocks appended by calls of \<open>add_block\<close> that returned \<open>True\<close>.
\<close>

inductive built :: "digest \<Rightarrow> blockchain \<Rightarrow> bool" for H :: digest where
  genesis: "chain st = [] \<Longrightarrow> create_genesis_block H now st = (Inr (), st') \<Longrightarrow> built H st'"
| append: "built H st \<Longrightarrow> add_block H now st ch pk sg = Some (Inr True, st') \<Longrightarrow> built H st'"

subsection \<open>Signature verification\<close>

text \<open>
  \<open>bytes.fromhex\<close>: ASCII whitespace between bytes is skipped, every byte is two
  hexadecimal digits, anything else is a \<open>ValueError\<close> (here \<open>None\<close>).
\<close>

definition is_space :: "char \<Rightarrow> bool" where
  "is_space c = (c \<in> set [CHR '' '', CHR 0x09, CHR 0x0A, CHR 0x0B, CHR 0x0C, CHR 0x0D])"

definition hex_val :: "char \<Rightarrow> nat option" where
  "hex_val c =
     (let n = of_char c :: nat in
      if 48 \<le> n \<and> n \<le> 57 then Some (n - 48)
      else if 97 \<le> n \<and> n \<le> 102 then Some (n - 87)
      else if 65 \<le> n \<and> n \<le> 70 then Some (n - 55)
      else None)"

fun fromhex :: "string \<Rightarrow> nat list option" where
  "fromhex [] = Some []"
| "fromhex [c] = (if is_space c then Some [] else None)"
| "fromhex (c # c' # cs) =
     (if is_space c then fromhex (c' # cs)
      else (case (hex_val c, hex_val c') of
              (Some a, Some b) \<Rightarrow>
                (case fromhex cs of None \<Rightarrow> None | Some bs \<Rightarrow> Some ((16 * a + b) # bs))
            | _ \<Rightarrow> None))"

text \<open>
  \<open>verify_signature\<close>. The key object is library code: \<open>public_key sg msg\<close> says
  whether its \<open>verify\<close> method returns rather than raising \<open>InvalidSignature\<close>.
  The \<open>ValueError\<close> of \<open>fromhex\<close> is not caught by the source; its text is kept
  without the position it ends with.
\<close>

definition verify_signature ::
  "string \<Rightarrow> string \<Rightarrow> (nat list \<Rightarrow> nat list \<Rightarrow> bool) \<Rightarrow> error + bool" where
  "verify_signature ch signature_hex public_key =
     (case fromhex signature_hex of
        None \<Rightarrow> Inl (ValueError ''non-hexadecimal number found in fromhex() arg'')
      | Some sg \<Rightarrow>
          (let message = map of_char ch
           in if public_key sg message then Inr True else Inr False))"

section \<open>Signal aggregation (detection_engine.py, tamper_detector.py)\<close>











section \<open>Vocabulary of the properties\<close>

text \<open>The number of leading \<open>0\<close> characters of a digest.\<close>

definition leading_zeros :: "string \<Rightarrow> nat" where
  "leading_zeros s = length (takeWhile (\<lambda>c. c = CHR ''0'') s)"

text \<open>
  The chain check without the comparison of the stored and the recomputed hash: only
  \<open>validate_block\<close> on every adjacent pair.
\<close>

fun linked_from :: "digest \<Rightarrow> nat \<Rightarrow> block \<Rightarrow> block list \<Rightarrow> bool" where
  "linked_from H d previous_block [] = True"
| "linked_from H d previous_block (current_block # rest) =
     (validate_block H d current_block previous_block \<and> linked_from H d current_block rest)"

definition links_valid :: "digest \<Rightarrow> nat \<Rightarrow> block list \<Rightarrow> bool" where
  "links_valid H d c = (case c of [] \<Rightarrow> True | b # rest \<Rightarrow> linked_from H d b rest)"

text \<open>
  The files on which the \<open>try\<close> block of \<open>load_blockchain\<close> raises: the file exists
  and cannot be read or parsed, or the document has no \<open>chain\<close> array, or one of its
  blocks lacks a key the loader subscripts. Every other document loads, whatever its blocks
  say.
\<close>

definition incomplete :: "block_dict \<Rightarrow> bool" where
  "incomplete e =
     (d_index e = None \<or> d_timestamp e = None \<or> d_content_hash e = None \<or>
      d_creator_public_key e = None \<or> d_signature e = None \<or> d_previous_hash e = None)"

fun unloadable :: "file_content \<Rightarrow> bool" where
  "unloadable NoFile = False"
| "unloadable (Unreadable m) = True"
| "unloadable (Document doc) =
     (case doc_chain doc of None \<Rightarrow> True | Some es \<Rightarrow> list_ex incomplete es)"

text \<open>The block that \<open>create_genesis_block\<close> appends.\<close>

definition genesis_of :: "digest \<Rightarrow> real \<Rightarrow> block" where
  "genesis_of H now =
     (let g = Block 0 now (replicate 64 CHR ''0'') ''GENESIS'' ''GENESIS'' ''0'' 0
      in g\<lparr>hash := Some (calculate_hash H g)\<rparr>)"

text \<open>The document \<open>save_blockchain\<close> writes for a chain.\<close>

definition snapshot :: "block list \<Rightarrow> bool \<Rightarrow> file_content" where
  "snapshot c v =
     Document \<lparr>doc_chain = Some (map to_dict c), doc_length = Some (length c), doc_valid = Some v\<rparr>"







section \<open>A concrete instance\<close>

text \<open>
  A digest function to evaluate the model on: 64 characters long like a SHA-256
  hexdigest, starting with \<open>00\<close> exactly when the nonce is 2 modulo 3, and depending on
  the content hash and on the previous hash.
\<close>

definition demo_digest :: digest where
  "demo_digest e =
     (let n = (case d_nonce e of None \<Rightarrow> 0 | Some n \<Rightarrow> n);
          c = (case d_content_hash e of None \<Rightarrow> [] | Some c \<Rightarrow> c);
          p = (case d_previous_hash e of None \<Rightarrow> [] | Some p \<Rightarrow> p)
      in take 64 ((if n mod 3 = 2 then ''00'' else ''a7'') @ c @ p @ replicate 64 CHR ''e''))"

text \<open>An object whose chain is empty, which only direct assignment produces.\<close>

definition empty_ledger :: blockchain where
  "empty_ledger =
     \<lparr>chain = [], difficulty = 2, ledger_file = NoFile, disk = Writable, printed = []\<rparr>"

text \<open>
  A freshly constructed ledger with no file behind it, the same after one append, and after
  a second append of the same content hash.
\<close>

definition demo_ledger :: blockchain where
  "demo_ledger = snd (init demo_digest NoFile Writable 0)"

definition demo_ledger2 :: blockchain where
  "demo_ledger2 =
     (case add_block demo_digest 1 demo_ledger ''c0ffee'' ''alice'' ''not-a-signature'' of
        None \<Rightarrow> demo_ledger | Some r \<Rightarrow> snd r)"

definition demo_ledger3 :: blockchain where
  "demo_ledger3 =
     (case add_block demo_digest 2 demo_ledger2 ''c0ffee'' ''bob'' ''0a0b'' of
        None \<Rightarrow> demo_ledger2 | Some r \<Rightarrow> snd r)"

text \<open>The blocks these ledgers hold, written out.\<close>

definition demo_genesis :: block where
  "demo_genesis =
     \<lparr>index = 0, timestamp = 0, content_hash = replicate 64 CHR ''0'',
      creator_public_key = ''GENESIS'', signature = ''GENESIS'', previous_hash = ''0'',
      nonce = 0, hash = Some (''a7'' @ replicate 62 CHR ''0'')\<rparr>"

definition demo_block1 :: block where
  "demo_block1 =
     \<lparr>index = 1, timestamp = 1, content_hash = ''c0ffee'',
      creator_public_key = ''alice'', signature = ''not-a-signature'',
      previous_hash = ''a7'' @ replicate 62 CHR ''0'',
      nonce = 2, hash = Some (''00c0ffeea7'' @ replicate 54 CHR ''0'')\<rparr>"

definition demo_block2 :: block where
  "demo_block2 =
     \<lparr>index = 2, timestamp = 2, content_hash = ''c0ffee'',
      creator_public_key = ''bob'', signature = ''0a0b'',
      previous_hash = ''00c0ffeea7'' @ replicate 54 CHR ''0'',
      nonce = 2, hash = Some (''00c0ffee00c0ffeea7'' @ replicate 46 CHR ''0'')\<rparr>"

text \<open>A key object whose \<open>verify\<close> never raises.\<close>

definition lenient_key :: "nat list \<Rightarrow> nat list \<Rightarrow> bool" where
  "lenient_key sg msg = True"






text \<open>
  The first ledger reopened from its file when the file has become read-only: the
  document loads, and every later write is refused.
\<close>

definition demo_readonly :: blockchain where
  "demo_readonly =
     snd (init demo_digest (ledger_file demo_ledger) (OpenFails ''[Errno 13] Permission denied'') 0)"

text \<open>
  A persisted document whose second block has lost its \<open>signature\<close> key, and one
  whose second block has been edited so that it no longer meets the difficulty.
\<close>

definition demo_tampered_file :: file_content where
  "demo_tampered_file =
     Document \<lparr>doc_chain = Some [to_dict demo_genesis,
                                   (to_dict demo_block1)\<lparr>d_content_hash := Some ''decaf'',
                                                          d_nonce := Some 3\<rparr>],
               doc_length = Some 2, doc_valid = Some True\<rparr>"


definition demo_broken_file :: file_content where
  "demo_broken_file =
     Document \<lparr>doc_chain = Some [to_dict demo_genesis, (to_dict demo_block1)\<lparr>d_signature := None\<rparr>],
               doc_length = Some 2, doc_valid = Some True\<rparr>"

section \<open>Properties of mining\<close>

lemma calculate_hash_hash_update [simp]:
  "calculate_hash H (b\<lparr>hash := h\<rparr>) = calculate_hash H b"
  by (simp add: calculate_hash_def to_dict_def)

lemma pow_loop_done: "meets_difficulty d (calculate_hash H b) \<Longrightarrow> pow_loop H d b = Some b"
  by (subst pow_loop.simps) simp

lemma pow_loop_step:
  "\<not> meets_difficulty d (calculate_hash H b) \<Longrightarrow>
     pow_loop H d b = pow_loop H d (b\<lparr>nonce := nonce b + 1\<rparr>)"
  by (subst pow_loop.simps) simp

lemma pow_loop_sound:
  "pow_loop H d b = Some b' \<Longrightarrow>
     \<exists>k::nat. b' = b\<lparr>nonce := nonce b + int k\<rparr> \<and> meets_difficulty d (calculate_hash H b') \<and>
       (\<forall>j<k. \<not> meets_difficulty d (calculate_hash H (b\<lparr>nonce := nonce b + int j\<rparr>)))"
proof (induction rule: pow_loop.raw_induct[rotated 1, consumes 1])
  case (1 pl H d b b')
  show ?case
  proof (cases "meets_difficulty d (calculate_hash H b)")
    case True
    with 1(2) have "b' = b" by simp
    with True show ?thesis by (intro exI[of _ 0]) simp
  next
    case False
    with 1(2) have "pl H d (b\<lparr>nonce := nonce b + 1\<rparr>) = Some b'" by simp
    from 1(1)[OF this] obtain k where k: "b' = b\<lparr>nonce := nonce b + 1 + int k\<rparr>"
      "meets_difficulty d (calculate_hash H b')"
      "\<forall>j<k. \<not> meets_difficulty d (calculate_hash H (b\<lparr>nonce := nonce b + 1 + int j\<rparr>))"
      by auto
    have "\<forall>j<Suc k. \<not> meets_difficulty d (calculate_hash H (b\<lparr>nonce := nonce b + int j\<rparr>))"
    proof (intro allI impI)
      fix j assume "j < Suc k"
      show "\<not> meets_difficulty d (calculate_hash H (b\<lparr>nonce := nonce b + int j\<rparr>))"
      proof (cases j)
        case 0 with False show ?thesis by simp
      next
        case (Suc j')
        with \<open>j < Suc k\<close> k(3) have "\<not> meets_difficulty d (calculate_hash H (b\<lparr>nonce := nonce b + 1 + int j'\<rparr>))" by simp
        moreover have "nonce b + int j = nonce b + 1 + int j'" using Suc by simp
        ultimately show ?thesis by (simp add: add.assoc)
      qed
    qed
    moreover have "nonce b + 1 + int k = nonce b + int (Suc k)" by simp
    ultimately show ?thesis using k(1,2) by (intro exI[of _ "Suc k"]) (simp add: add.assoc)
  qed
qed

lemma pow_loop_complete:
  "meets_difficulty d (calculate_hash H (b\<lparr>nonce := nonce b + int k\<rparr>)) \<Longrightarrow>
     \<exists>b'. pow_loop H d b = Some b'"
proof (induction k arbitrary: b)
  case 0
  then show ?case by (simp add: pow_loop_done)
next
  case (Suc k)
  show ?case
  proof (cases "meets_difficulty d (calculate_hash H b)")
    case True
    then show ?thesis by (simp add: pow_loop_done)
  next
    case False
    let ?b = "b\<lparr>nonce := nonce b + 1\<rparr>"
    have "?b\<lparr>nonce := nonce ?b + int k\<rparr> = b\<lparr>nonce := nonce b + int (Suc k)\<rparr>"
      by (simp add: add.assoc)
    with Suc.prems have "meets_difficulty d (calculate_hash H (?b\<lparr>nonce := nonce ?b + int k\<rparr>))"
      by (simp add: add.assoc)
    from Suc.IH[OF this] show ?thesis using False by (simp add: pow_loop_step)
  qed
qed

lemma proof_of_work_SomeD:
  assumes "proof_of_work H d b = Some m"
  shows "\<exists>k::nat. m = b\<lparr>nonce := int k, hash := Some (calculate_hash H (b\<lparr>nonce := int k\<rparr>))\<rparr> \<and>
           meets_difficulty d (calculate_hash H (b\<lparr>nonce := int k\<rparr>)) \<and>
           (\<forall>j<k. \<not> meets_difficulty d (calculate_hash H (b\<lparr>nonce := int j\<rparr>)))"
proof -
  from assms obtain b' where b': "pow_loop H d (b\<lparr>nonce := 0\<rparr>) = Some b'"
    and m: "m = b'\<lparr>hash := Some (calculate_hash H b')\<rparr>"
    by (auto simp: proof_of_work_def split: option.splits)
  from pow_loop_sound[OF b'] obtain k :: nat where
    "b' = b\<lparr>nonce := int k\<rparr>" "meets_difficulty d (calculate_hash H b')"
    "\<forall>j<k. \<not> meets_difficulty d (calculate_hash H (b\<lparr>nonce := int j\<rparr>))"
    by auto
  with m show ?thesis by (intro exI[of _ k]) simp
qed

lemma proof_of_work_returns_iff:
  "(\<exists>m. proof_of_work H d b = Some m) \<longleftrightarrow>
   (\<exists>k::nat. meets_difficulty d (calculate_hash H (b\<lparr>nonce := int k\<rparr>)))"
proof
  assume "\<exists>m. proof_of_work H d b = Some m"
  then obtain m where "proof_of_work H d b = Some m" ..
  from proof_of_work_SomeD[OF this] show "\<exists>k::nat. meets_difficulty d (calculate_hash H (b\<lparr>nonce := int k\<rparr>))"
    by blast
next
  assume "\<exists>k::nat. meets_difficulty d (calculate_hash H (b\<lparr>nonce := int k\<rparr>))"
  then obtain k :: nat where "meets_difficulty d (calculate_hash H (b\<lparr>nonce := int k\<rparr>))" ..
  then have "meets_difficulty d (calculate_hash H ((b\<lparr>nonce := 0\<rparr>)\<lparr>nonce := nonce (b\<lparr>nonce := 0\<rparr>) + int k\<rparr>))"
    by simp
  from pow_loop_complete[OF this] show "\<exists>m. proof_of_work H d b = Some m"
    by (auto simp: proof_of_work_def)
qed

section \<open>Properties of validation and append\<close>

lemma save_blockchain_writable:
  "disk st = Writable \<Longrightarrow> is_valid_chain H (difficulty st) (chain st) = Inr v \<Longrightarrow>
     save_blockchain H st = (Inr (), st\<lparr>ledger_file := snapshot (chain st) v\<rparr>)"
  by (simp add: save_blockchain_def makedirs_def write_document_def snapshot_def)

lemma save_blockchain_makedirs:
  "disk st = MakedirsFails x \<Longrightarrow> save_blockchain H st = (Inl (OSError x), st)"
  by (simp add: save_blockchain_def makedirs_def)

lemma save_blockchain_open:
  "disk st = OpenFails x \<Longrightarrow> is_valid_chain H (difficulty st) (chain st) = Inr v \<Longrightarrow>
     save_blockchain H st = (Inl (OSError x), st)"
  by (simp add: save_blockchain_def makedirs_def write_document_def)

lemma save_blockchain_dump:
  "disk st = DumpFails x t \<Longrightarrow> is_valid_chain H (difficulty st) (chain st) = Inr v \<Longrightarrow>
     save_blockchain H st = (Inl (OSError x), st\<lparr>ledger_file := Unreadable t\<rparr>)"
  by (simp add: save_blockchain_def makedirs_def write_document_def)

text \<open>
  Every outcome of a save: the object itself is untouched; either the snapshot is
  written, or an exception leaves and the file is as it was or, after a failed dump,
  truncated.
\<close>

lemma save_blockchain_result:
  assumes "save_blockchain H st = (r, st')"
  shows "chain st' = chain st \<and> difficulty st' = difficulty st \<and> disk st' = disk st \<and>
         printed st' = printed st \<and>
         ((r = Inr () \<and> disk st = Writable \<and>
            (\<exists>v. is_valid_chain H (difficulty st) (chain st) = Inr v \<and>
                 ledger_file st' = snapshot (chain st) v)) \<or>
          (\<exists>e. r = Inl e \<and>
             (ledger_file st' = ledger_file st \<or>
              (\<exists>x t. disk st = DumpFails x t \<and> ledger_file st' = Unreadable t))))"
proof (cases "disk st")
  case Writable
  show ?thesis
  proof (cases "is_valid_chain H (difficulty st) (chain st)")
    case (Inl e)
    with assms Writable show ?thesis by (auto simp: save_blockchain_def makedirs_def)
  next
    case (Inr v)
    from save_blockchain_writable[OF Writable Inr] assms Writable Inr show ?thesis by auto
  qed
next
  case (MakedirsFails x)
  from save_blockchain_makedirs[OF this] assms show ?thesis by auto
next
  case (OpenFails x)
  show ?thesis
  proof (cases "is_valid_chain H (difficulty st) (chain st)")
    case (Inl e)
    with assms OpenFails show ?thesis by (auto simp: save_blockchain_def makedirs_def)
  next
    case (Inr v)
    from save_blockchain_open[OF OpenFails Inr] assms show ?thesis by auto
  qed
next
  case (DumpFails x t)
  show ?thesis
  proof (cases "is_valid_chain H (difficulty st) (chain st)")
    case (Inl e)
    with assms DumpFails show ?thesis by (auto simp: save_blockchain_def makedirs_def)
  next
    case (Inr v)
    from save_blockchain_dump[OF DumpFails Inr] assms DumpFails show ?thesis by auto
  qed
qed

lemma mined_validates:
  assumes "proof_of_work H d (Block (index p + 1) now ch pk sg (calculate_hash H p) 0) = Some m"
  shows "validate_block H d m p"
proof -
  from proof_of_work_SomeD[OF assms] obtain k :: nat where
    "m = (Block (index p + 1) now ch pk sg (calculate_hash H p) 0)
           \<lparr>nonce := int k,
            hash := Some (calculate_hash H ((Block (index p + 1) now ch pk sg (calculate_hash H p) 0)\<lparr>nonce := int k\<rparr>))\<rparr>"
    "meets_difficulty d (calculate_hash H ((Block (index p + 1) now ch pk sg (calculate_hash H p) 0)\<lparr>nonce := int k\<rparr>))"
    by blast
  then show ?thesis by (simp add: validate_block_def Block_def calculate_hash_def to_dict_def)
qed

lemma valid_from_append:
  "valid_from H d p (xs @ [x]) =
     (case valid_from H d p xs of
        Inl e \<Rightarrow> Inl e
      | Inr v \<Rightarrow> if v then valid_from H d (last (p # xs)) [x] else Inr False)"
  by (induction xs arbitrary: p) (auto split: option.splits sum.splits)

lemma is_valid_chain_append:
  "c \<noteq> [] \<Longrightarrow>
   is_valid_chain H d (c @ [x]) =
     (case is_valid_chain H d c of
        Inl e \<Rightarrow> Inl e
      | Inr v \<Rightarrow> if v then valid_from H d (last c) [x] else Inr False)"
  by (cases c) (auto simp: is_valid_chain_def valid_from_append split: sum.splits)

lemma valid_from_hashed:
  "\<forall>b\<in>set rest. hash b \<noteq> None \<Longrightarrow> \<exists>v. valid_from H d p rest = Inr v"
  by (induction rest arbitrary: p) auto

lemma is_valid_chain_hashed:
  "\<forall>b\<in>set c. hash b \<noteq> None \<Longrightarrow> \<exists>v. is_valid_chain H d c = Inr v"
  by (cases c) (auto simp: is_valid_chain_def valid_from_hashed)

text \<open>What a returning call of add_block on a non-empty chain has done.\<close>

lemma add_block_returns:
  assumes ne: "chain st \<noteq> []" and ret: "add_block H now st ch pk sg = Some (r, st')"
  defines "p \<equiv> last (chain st)"
  defines "cand \<equiv> Block (index p + 1) now ch pk sg (calculate_hash H p) 0"
  shows "\<exists>k::nat.
           meets_difficulty (difficulty st) (calculate_hash H (cand\<lparr>nonce := int k\<rparr>)) \<and>
           (\<forall>j<k. \<not> meets_difficulty (difficulty st) (calculate_hash H (cand\<lparr>nonce := int j\<rparr>))) \<and>
           validate_block H (difficulty st)
             (cand\<lparr>nonce := int k, hash := Some (calculate_hash H (cand\<lparr>nonce := int k\<rparr>))\<rparr>) p \<and>
           (r, st') = commit_block H st
             (cand\<lparr>nonce := int k, hash := Some (calculate_hash H (cand\<lparr>nonce := int k\<rparr>))\<rparr>) p"
proof -
  from ne ret obtain m where m: "proof_of_work H (difficulty st) cand = Some m"
    and c: "(r, st') = commit_block H st m p"
    by (auto simp: add_block_def Let_def p_def cand_def split: option.splits)
  from mined_validates[OF m[unfolded cand_def]] have v: "validate_block H (difficulty st) m p" .
  from proof_of_work_SomeD[OF m] obtain k :: nat where
    "m = cand\<lparr>nonce := int k, hash := Some (calculate_hash H (cand\<lparr>nonce := int k\<rparr>))\<rparr>"
    "meets_difficulty (difficulty st) (calculate_hash H (cand\<lparr>nonce := int k\<rparr>))"
    "\<forall>j<k. \<not> meets_difficulty (difficulty st) (calculate_hash H (cand\<lparr>nonce := int j\<rparr>))"
    by blast
  with v c show ?thesis by blast
qed

text \<open>
  Every outcome of committing a candidate that validates: the block is appended in
  memory whatever the save does.
\<close>

lemma commit_block_result:
  assumes "validate_block H (difficulty st) m p" and "commit_block H st m p = (r, st')"
  shows "chain st' = chain st @ [m] \<and> difficulty st' = difficulty st \<and> disk st' = disk st \<and>
         printed st' = printed st \<and>
         ((r = Inr True \<and> disk st = Writable \<and>
            (\<exists>v. is_valid_chain H (difficulty st) (chain st @ [m]) = Inr v \<and>
                 ledger_file st' = snapshot (chain st @ [m]) v)) \<or>
          (\<exists>e. r = Inl e \<and>
             (ledger_file st' = ledger_file st \<or>
              (\<exists>x t. disk st = DumpFails x t \<and> ledger_file st' = Unreadable t))))"
proof -
  obtain r0 st0 where s: "save_blockchain H (st\<lparr>chain := chain st @ [m]\<rparr>) = (r0, st0)"
    by (cases "save_blockchain H (st\<lparr>chain := chain st @ [m]\<rparr>)")
  from assms s have "st' = st0" "r = (case r0 of Inl e \<Rightarrow> Inl e | Inr u \<Rightarrow> Inr True)"
    by (auto simp: commit_block_def split: sum.splits)
  with save_blockchain_result[OF s] show ?thesis
    by (auto split: sum.splits)
qed

lemma commit_block_writable:
  assumes "validate_block H (difficulty st) m p" and "disk st = Writable"
    and "is_valid_chain H (difficulty st) (chain st @ [m]) = Inr v"
  shows "commit_block H st m p =
     (Inr True, st\<lparr>chain := chain st @ [m], ledger_file := snapshot (chain st @ [m]) v\<rparr>)"
  using assms by (simp add: commit_block_def save_blockchain_writable)

lemma commit_block_invalid:
  "\<not> validate_block H (difficulty st) m p \<Longrightarrow> commit_block H st m p = (Inr False, st)"
  by (simp add: commit_block_def)

lemma add_block_appends:
  assumes ne: "chain st \<noteq> []" and ret: "add_block H now st ch pk sg = Some (r, st')"
  shows "\<exists>m. chain st' = chain st @ [m] \<and> r \<noteq> Inr False \<and> difficulty st' = difficulty st \<and>
             content_hash m = ch \<and> creator_public_key m = pk \<and> signature m = sg"
proof -
  from add_block_returns[OF ne ret] obtain k :: nat where
    v: "validate_block H (difficulty st)
          ((Block (index (last (chain st)) + 1) now ch pk sg (calculate_hash H (last (chain st))) 0)
             \<lparr>nonce := int k, hash := Some (calculate_hash H ((Block (index (last (chain st)) + 1) now ch pk sg (calculate_hash H (last (chain st))) 0)\<lparr>nonce := int k\<rparr>))\<rparr>)
          (last (chain st))"
    and c: "(r, st') = commit_block H st
          ((Block (index (last (chain st)) + 1) now ch pk sg (calculate_hash H (last (chain st))) 0)
             \<lparr>nonce := int k, hash := Some (calculate_hash H ((Block (index (last (chain st)) + 1) now ch pk sg (calculate_hash H (last (chain st))) 0)\<lparr>nonce := int k\<rparr>))\<rparr>)
          (last (chain st))"
    by blast
  from commit_block_result[OF v c[symmetric]] show ?thesis
    by (auto simp: Block_def)
qed

section \<open>Evaluating the concrete instance\<close>

lemmas demo_simps =
  add_block_def proof_of_work_def pow_loop_done pow_loop_step commit_block_def
  validate_block_def snapshot_def save_blockchain_def makedirs_def write_document_def
  is_valid_chain_def Block_def calculate_hash_def to_dict_def demo_digest_def Let_def

lemma meets_difficulty_2:
  "meets_difficulty 2 s \<longleftrightarrow> (\<exists>t. s = CHR ''0'' # CHR ''0'' # t)"
  by (auto simp: meets_difficulty_def numeral_2_eq_2 prefix_def)

lemma demo_ledger_eq:
  "demo_ledger =
     \<lparr>chain = [demo_genesis], difficulty = 2,
      ledger_file = snapshot [demo_genesis] True, disk = Writable, printed = []\<rparr>"
  by (simp add: demo_ledger_def demo_genesis_def init_def load_blockchain_def
      create_genesis_block_def demo_simps)

lemma demo_add_block:
  "add_block demo_digest 1 demo_ledger ''c0ffee'' ''alice'' ''not-a-signature'' =
     Some (Inr True,
       \<lparr>chain = [demo_genesis, demo_block1], difficulty = 2,
        ledger_file = snapshot [demo_genesis, demo_block1] True, disk = Writable,
        printed = []\<rparr>)"
  by (simp add: demo_ledger_eq demo_genesis_def demo_block1_def meets_difficulty_2 demo_simps)

lemma demo_ledger2_eq:
  "demo_ledger2 =
     \<lparr>chain = [demo_genesis, demo_block1], difficulty = 2,
      ledger_file = snapshot [demo_genesis, demo_block1] True, disk = Writable,
      printed = []\<rparr>"
  by (simp add: demo_ledger2_def demo_add_block)

lemma demo_add_block2:
  "add_block demo_digest 2 demo_ledger2 ''c0ffee'' ''bob'' ''0a0b'' =
     Some (Inr True,
       \<lparr>chain = [demo_genesis, demo_block1, demo_block2], difficulty = 2,
        ledger_file = snapshot [demo_genesis, demo_block1, demo_block2] True, disk = Writable,
        printed = []\<rparr>)"
  by (simp add: demo_ledger2_eq demo_genesis_def demo_block1_def demo_block2_def
      meets_difficulty_2 demo_simps)

lemma demo_ledger3_eq:
  "demo_ledger3 =
     \<lparr>chain = [demo_genesis, demo_block1, demo_block2], difficulty = 2,
      ledger_file = snapshot [demo_genesis, demo_block1, demo_block2] True, disk = Writable,
      printed = []\<rparr>"
  by (simp add: demo_ledger3_def demo_add_block2)

lemma length_demo_digest: "length (demo_digest e) = 64"
  by (simp add: demo_digest_def Let_def)

lemma meets_difficulty_length: "meets_difficulty d s \<Longrightarrow> d \<le> length s"
  by (auto simp: meets_difficulty_def prefix_def)

lemma meets_difficulty_leading_zeros: "meets_difficulty d s \<longleftrightarrow> d \<le> leading_zeros s"
proof (induction s arbitrary: d)
  case Nil
  then show ?case by (simp add: meets_difficulty_def leading_zeros_def)
next
  case (Cons c s)
  show ?case
  proof (cases d)
    case 0
    then show ?thesis by (simp add: meets_difficulty_def)
  next
    case (Suc d')
    with Cons[of d'] show ?thesis
      by (simp add: meets_difficulty_def leading_zeros_def)
  qed
qed

section \<open>Append on an empty chain\<close>

text \<open>
  C9: on a ledger whose chain is empty, \<open>add_block\<close> returns \<open>False\<close> for every content
  hash, creator key and signature; no block is appended, the file is not written and
  nothing else of the state changes.
\<close>

theorem add_block_empty_chain:
  "chain st = [] \<Longrightarrow> add_block H now st ch pk sg = Some (Inr False, st)"
  by (simp add: add_block_def)

theorem add_block_empty_chain_witness:
  "chain empty_ledger = [] \<and>
   add_block demo_digest 7 empty_ledger ''c0ffee'' ''alice'' ''0a0b'' = Some (Inr False, empty_ledger) \<and>
   ledger_file empty_ledger = NoFile"
  using add_block_empty_chain [of empty_ledger demo_digest 7 "''c0ffee''" "''alice''" "''0a0b''"]
  by (simp add: empty_ledger_def)

section \<open>What an accepted block satisfies\<close>

text \<open>
  C6: every block accepted by \<open>add_block\<close> satisfies proof of work: its hash starts with
  \<open>difficulty\<close> zero characters (it has at least that many leading zeros), and the stored
  hash is that hash; the nonce search starts from 0, so the nonce is the least non-negative
  integer whose hash meets the difficulty; the index is the previous block's index plus
  one and \<open>previous_hash\<close> is the hash of the previous block.
\<close>

theorem add_block_accepted_block:
  assumes "add_block H now st ch pk sg = Some (Inr True, st')"
  shows "\<exists>b. chain st' = chain st @ [b] \<and>
           meets_difficulty (difficulty st) (calculate_hash H b) \<and>
           difficulty st \<le> leading_zeros (calculate_hash H b) \<and>
           hash b = Some (calculate_hash H b) \<and>
           0 \<le> nonce b \<and>
           (\<forall>n. 0 \<le> n \<and> n < nonce b \<longrightarrow>
                \<not> meets_difficulty (difficulty st) (calculate_hash H (b\<lparr>nonce := n\<rparr>))) \<and>
           index b = index (last (chain st)) + 1 \<and>
           previous_hash b = calculate_hash H (last (chain st))"
proof -
  let ?p = "last (chain st)"
  let ?cand = "Block (index ?p + 1) now ch pk sg (calculate_hash H ?p) 0"
  from assms have ne: "chain st \<noteq> []"
    by (auto simp: add_block_def)
  from add_block_returns[OF ne assms] obtain k :: nat where
    meets: "meets_difficulty (difficulty st) (calculate_hash H (?cand\<lparr>nonce := int k\<rparr>))"
    and least: "\<forall>j<k. \<not> meets_difficulty (difficulty st) (calculate_hash H (?cand\<lparr>nonce := int j\<rparr>))"
    and valid: "validate_block H (difficulty st)
        (?cand\<lparr>nonce := int k, hash := Some (calculate_hash H (?cand\<lparr>nonce := int k\<rparr>))\<rparr>) ?p"
    and commit: "(Inr True, st') = commit_block H st
        (?cand\<lparr>nonce := int k, hash := Some (calculate_hash H (?cand\<lparr>nonce := int k\<rparr>))\<rparr>) ?p"
    by blast
  let ?b = "?cand\<lparr>nonce := int k, hash := Some (calculate_hash H (?cand\<lparr>nonce := int k\<rparr>))\<rparr>"
  have same: "calculate_hash H ?b = calculate_hash H (?cand\<lparr>nonce := int k\<rparr>)"
    by (simp add: calculate_hash_def to_dict_def)
  have chain: "chain st' = chain st @ [?b]"
    using commit_block_result[OF valid commit[symmetric]] by simp
  have least': "\<forall>n. 0 \<le> n \<and> n < nonce ?b \<longrightarrow>
      \<not> meets_difficulty (difficulty st) (calculate_hash H (?b\<lparr>nonce := n\<rparr>))"
  proof (intro allI impI)
    fix n :: int assume n: "0 \<le> n \<and> n < nonce ?b"
    then have "nat n < k" by (simp add: nat_less_iff)
    with least have "\<not> meets_difficulty (difficulty st) (calculate_hash H (?cand\<lparr>nonce := int (nat n)\<rparr>))"
      by blast
    moreover have "calculate_hash H (?b\<lparr>nonce := n\<rparr>) = calculate_hash H (?cand\<lparr>nonce := int (nat n)\<rparr>)"
      using n by (simp add: calculate_hash_def to_dict_def)
    ultimately show "\<not> meets_difficulty (difficulty st) (calculate_hash H (?b\<lparr>nonce := n\<rparr>))"
      by simp
  qed
  have "meets_difficulty (difficulty st) (calculate_hash H ?b)"
    using meets same by simp
  moreover from this have "difficulty st \<le> leading_zeros (calculate_hash H ?b)"
    by (simp add: meets_difficulty_leading_zeros)
  moreover have "hash ?b = Some (calculate_hash H ?b)"
    using same by simp
  moreover have "0 \<le> nonce ?b" by simp
  moreover have "index ?b = index ?p + 1" "previous_hash ?b = calculate_hash H ?p"
    by (simp_all add: Block_def)
  ultimately show ?thesis using chain least' by blast
qed

theorem add_block_accepted_block_witness:
  "add_block demo_digest 1 demo_ledger ''c0ffee'' ''alice'' ''not-a-signature'' =
     Some (Inr True, demo_ledger2) \<and>
   (\<exists>b. chain demo_ledger2 = chain demo_ledger @ [b] \<and>
        meets_difficulty 2 (calculate_hash demo_digest b) \<and>
        2 \<le> leading_zeros (calculate_hash demo_digest b) \<and>
        hash b = Some (calculate_hash demo_digest b) \<and>
        0 \<le> nonce b \<and>
        (\<forall>n. 0 \<le> n \<and> n < nonce b \<longrightarrow>
             \<not> meets_difficulty 2 (calculate_hash demo_digest (b\<lparr>nonce := n\<rparr>))) \<and>
        index b = index (last (chain demo_ledger)) + 1 \<and>
        previous_hash b = calculate_hash demo_digest (last (chain demo_ledger)))"
proof -
  have run: "add_block demo_digest 1 demo_ledger ''c0ffee'' ''alice'' ''not-a-signature'' =
     Some (Inr True, demo_ledger2)"
    by (simp add: demo_add_block demo_ledger2_eq)
  have "difficulty demo_ledger = 2"
    by (simp add: demo_ledger_eq)
  with add_block_accepted_block [OF run] run show ?thesis by simp
qed

section \<open>The mining loop has no bound\<close>

lemma pow_loop_never:
  assumes "\<forall>e. length (H e) < d"
  shows "pow_loop H d b = None"
proof (cases "pow_loop H d b")
  case None
  then show ?thesis .
next
  case (Some b')
  from pow_loop_sound[OF Some] have "meets_difficulty d (calculate_hash H b')" by blast
  from meets_difficulty_length[OF this] assms show ?thesis
    by (simp add: calculate_hash_def not_le[symmetric])
qed

lemma add_block_never:
  assumes "chain st \<noteq> []" "\<forall>e. length (H e) < difficulty st"
  shows "add_block H now st ch pk sg = None"
  using assms by (simp add: add_block_def proof_of_work_def pow_loop_never Let_def)

text \<open>
  C3, refuted as stated: with a digest of 64 characters, as a SHA-256 hexdigest has, and the
  difficulty set to 65, no nonce can ever meet the difficulty. The append then neither
  returns nor raises: the loop runs forever.
\<close>

theorem add_block_mining_counterexample:
  "add_block demo_digest 3 (demo_ledger\<lparr>difficulty := 65\<rparr>) ''c0ffee'' ''alice'' ''0a0b'' = None"
  by (rule add_block_never) (simp_all add: demo_ledger_eq length_demo_digest)

text \<open>
  C3, as the code has it: the nonce search performed during append has no bound. On a
  non-empty chain \<open>add_block\<close> fails to return exactly when no nonce \<open>0, 1, 2, ...\<close>
  gives the candidate a hash that meets the difficulty; otherwise it returns. No timeout
  error exists.
\<close>

theorem add_block_mining_unbounded:
  assumes "chain st \<noteq> []"
  shows "(add_block H now st ch pk sg = None) =
         (\<forall>k::nat. \<not> meets_difficulty (difficulty st)
            (calculate_hash H
              ((Block (index (last (chain st)) + 1) now ch pk sg
                  (calculate_hash H (last (chain st))) 0)\<lparr>nonce := int k\<rparr>)))"
proof -
  let ?cand = "Block (index (last (chain st)) + 1) now ch pk sg (calculate_hash H (last (chain st))) 0"
  have "(add_block H now st ch pk sg = None) = (proof_of_work H (difficulty st) ?cand = None)"
    using assms by (simp add: add_block_def Let_def split: option.splits)
  also have "\<dots> = (\<not> (\<exists>m. proof_of_work H (difficulty st) ?cand = Some m))"
    by auto
  also have "\<dots> = (\<forall>k::nat. \<not> meets_difficulty (difficulty st) (calculate_hash H (?cand\<lparr>nonce := int k\<rparr>)))"
    unfolding proof_of_work_returns_iff by simp
  finally show ?thesis .
qed

theorem add_block_mining_unbounded_witness:
  "chain (demo_ledger\<lparr>difficulty := 65\<rparr>) \<noteq> [] \<and>
   add_block demo_digest 3 (demo_ledger\<lparr>difficulty := 65\<rparr>) ''c0ffee'' ''alice'' ''0a0b'' = None \<and>
   (\<forall>k::nat. \<not> meets_difficulty 65
       (calculate_hash demo_digest
         ((Block (index (last (chain demo_ledger)) + 1) 3 ''c0ffee'' ''alice'' ''0a0b''
             (calculate_hash demo_digest (last (chain demo_ledger))) 0)\<lparr>nonce := int k\<rparr>)))"
proof -
  have ne: "chain (demo_ledger\<lparr>difficulty := 65\<rparr>) \<noteq> []"
    by (simp add: demo_ledger_eq)
  have never: "add_block demo_digest 3 (demo_ledger\<lparr>difficulty := 65\<rparr>) ''c0ffee'' ''alice'' ''0a0b'' = None"
    by (rule add_block_never) (simp_all add: demo_ledger_eq length_demo_digest)
  from add_block_mining_unbounded [OF ne, of demo_digest 3 "''c0ffee''" "''alice''" "''0a0b''"] never ne
  show ?thesis by simp
qed

section \<open>Signatures are not verified on append\<close>

lemma add_block_hashed:
  assumes ne: "chain st \<noteq> []" and hashed: "\<forall>b\<in>set (chain st). hash b \<noteq> None"
    and wr: "disk st = Writable"
    and ret: "add_block H now st ch pk sg = Some (r, st')"
  shows "r = Inr True \<and>
         (\<exists>m v. validate_block H (difficulty st) m (last (chain st)) \<and>
                is_valid_chain H (difficulty st) (chain st @ [m]) = Inr v \<and>
                st' = st\<lparr>chain := chain st @ [m], ledger_file := snapshot (chain st @ [m]) v\<rparr>)"
proof -
  from add_block_returns[OF ne ret] obtain m where
    v: "validate_block H (difficulty st) m (last (chain st))"
    and h: "hash m \<noteq> None"
    and c: "(r, st') = commit_block H st m (last (chain st))"
    by fastforce
  from hashed h have "\<forall>b\<in>set (chain st @ [m]). hash b \<noteq> None" by simp
  from is_valid_chain_hashed[OF this] obtain w where
    w: "is_valid_chain H (difficulty st) (chain st @ [m]) = Inr w" by blast
  from c have "r = Inr True"
    and "st' = st\<lparr>chain := chain st @ [m], ledger_file := snapshot (chain st @ [m]) w\<rparr>"
    unfolding commit_block_writable[OF v wr w] by simp_all
  with v w show ?thesis by blast
qed

text \<open>
  C1, refuted as stated: the signature \<open>not-a-signature\<close> is not even hexadecimal, so
  \<open>verify_signature\<close> cannot return \<open>True\<close> for it under any key, and yet
  \<open>add_block\<close> accepts the block and extends the chain.
\<close>

theorem add_block_unverified_signature_counterexample:
  "verify_signature ''c0ffee'' ''not-a-signature'' lenient_key =
     Inl (ValueError ''non-hexadecimal number found in fromhex() arg'') \<and>
   add_block demo_digest 1 demo_ledger ''c0ffee'' ''alice'' ''not-a-signature'' =
     Some (Inr True, demo_ledger2) \<and>
   chain demo_ledger2 = chain demo_ledger @ [demo_block1] \<and>
   signature demo_block1 = ''not-a-signature''"
proof -
  have "verify_signature ''c0ffee'' ''not-a-signature'' lenient_key =
     Inl (ValueError ''non-hexadecimal number found in fromhex() arg'')"
    by (simp add: verify_signature_def is_space_def hex_val_def)
  moreover have "add_block demo_digest 1 demo_ledger ''c0ffee'' ''alice'' ''not-a-signature'' =
     Some (Inr True, demo_ledger2)"
    by (simp add: demo_add_block demo_ledger2_eq)
  moreover have "chain demo_ledger2 = chain demo_ledger @ [demo_block1]"
    by (simp add: demo_ledger2_eq demo_ledger_eq)
  moreover have "signature demo_block1 = ''not-a-signature''"
    by (simp add: demo_block1_def)
  ultimately show ?thesis by blast
qed

text \<open>
  C1, as the code has it: \<open>validate_block\<close> checks index, previous hash and proof of
  work only. A call of \<open>add_block\<close> on a non-empty chain that returns, with a signature
  that does not verify, still appends the block, with that signature; it does not return
  \<open>False\<close>, and it returns \<open>True\<close> when the file can be written and every block of
  the chain carries its hash.
\<close>

theorem add_block_ignores_signature:
  assumes "chain st \<noteq> []"
    and "add_block H now st ch pk sg = Some (r, st')"
    and "verify_signature ch sg public_key \<noteq> Inr True"
  shows "r \<noteq> Inr False \<and>
         (\<exists>b. chain st' = chain st @ [b] \<and> content_hash b = ch \<and>
              creator_public_key b = pk \<and> signature b = sg) \<and>
         (disk st = Writable \<and> (\<forall>b\<in>set (chain st). hash b \<noteq> None) \<longrightarrow> r = Inr True)"
proof -
  from add_block_appends[OF assms(1,2)] obtain m where
    m: "chain st' = chain st @ [m]" "r \<noteq> Inr False" "content_hash m = ch"
       "creator_public_key m = pk" "signature m = sg"
    by blast
  have "r = Inr True" if "disk st = Writable" and hashed: "\<forall>b\<in>set (chain st). hash b \<noteq> None"
    using add_block_hashed[OF assms(1) hashed that(1) assms(2)] by simp
  with m show ?thesis by blast
qed

theorem add_block_ignores_signature_witness:
  "chain demo_ledger \<noteq> [] \<and>
   add_block demo_digest 1 demo_ledger ''c0ffee'' ''alice'' ''not-a-signature'' =
     Some (Inr True, demo_ledger2) \<and>
   verify_signature ''c0ffee'' ''not-a-signature'' lenient_key \<noteq> Inr True \<and>
   (\<exists>b. chain demo_ledger2 = chain demo_ledger @ [b] \<and> content_hash b = ''c0ffee'' \<and>
        creator_public_key b = ''alice'' \<and> signature b = ''not-a-signature'') \<and>
   disk demo_ledger = Writable \<and>
   list_all (\<lambda>b. hash b \<noteq> None) (chain demo_ledger)"
proof -
  have ne: "chain demo_ledger \<noteq> []" and wr: "disk demo_ledger = Writable"
    by (simp_all add: demo_ledger_eq)
  have run: "add_block demo_digest 1 demo_ledger ''c0ffee'' ''alice'' ''not-a-signature'' =
     Some (Inr True, demo_ledger2)"
    by (simp add: demo_add_block demo_ledger2_eq)
  have unverified: "verify_signature ''c0ffee'' ''not-a-signature'' lenient_key \<noteq> Inr True"
    by (simp add: verify_signature_def is_space_def hex_val_def)
  have hashed: "\<forall>b\<in>set (chain demo_ledger). hash b \<noteq> None"
    by (simp add: demo_ledger_eq demo_genesis_def)
  have all: "list_all (\<lambda>b. hash b \<noteq> None) (chain demo_ledger)"
    using hashed by (simp add: list_all_iff)
  note t = add_block_ignores_signature [OF ne run unverified]
  show ?thesis
    by (intro conjI) (fact ne run unverified wr all t [THEN conjunct2, THEN conjunct1])+
qed

section \<open>Duplicate content hashes\<close>

text \<open>
  C4, refuted as stated: the content hash \<open>c0ffee\<close> is already in the chain, and a second
  \<open>add_block\<close> with it returns \<open>True\<close> and extends the chain by a block with the same
  content hash.
\<close>

theorem add_block_duplicate_counterexample:
  "''c0ffee'' \<in> content_hash ` set (chain demo_ledger2) \<and>
   add_block demo_digest 2 demo_ledger2 ''c0ffee'' ''bob'' ''0a0b'' = Some (Inr True, demo_ledger3) \<and>
   chain demo_ledger3 = chain demo_ledger2 @ [demo_block2] \<and>
   content_hash demo_block2 = ''c0ffee''"
proof -
  have "''c0ffee'' \<in> content_hash ` set (chain demo_ledger2)"
    by (simp add: demo_ledger2_eq demo_block1_def)
  moreover have "add_block demo_digest 2 demo_ledger2 ''c0ffee'' ''bob'' ''0a0b'' =
      Some (Inr True, demo_ledger3)"
    by (simp add: demo_add_block2 demo_ledger3_eq)
  moreover have "chain demo_ledger3 = chain demo_ledger2 @ [demo_block2]"
    by (simp add: demo_ledger3_eq demo_ledger2_eq)
  moreover have "content_hash demo_block2 = ''c0ffee''"
    by (simp add: demo_block2_def)
  ultimately show ?thesis by blast
qed

text \<open>
  C4, as the code has it: \<open>add_block\<close> makes no duplicate check. For a content hash
  already present in the chain, a call that returns has appended one more block carrying
  that content hash; it does not return \<open>False\<close>, and it returns \<open>True\<close> when the
  file can be written and every block of the chain carries its hash. No
  duplicate-registration error exists.
\<close>

theorem add_block_duplicate_appended:
  assumes "ch \<in> content_hash ` set (chain st)"
    and "add_block H now st ch pk sg = Some (r, st')"
  shows "r \<noteq> Inr False \<and> length (chain st') = length (chain st) + 1 \<and>
         content_hash (last (chain st')) = ch \<and>
         (disk st = Writable \<and> (\<forall>b\<in>set (chain st). hash b \<noteq> None) \<longrightarrow> r = Inr True)"
proof -
  from assms(1) have ne: "chain st \<noteq> []" by auto
  from add_block_appends[OF ne assms(2)] obtain m where
    m: "chain st' = chain st @ [m]" "r \<noteq> Inr False" "content_hash m = ch"
    by blast
  have "r = Inr True" if "disk st = Writable" and hashed: "\<forall>b\<in>set (chain st). hash b \<noteq> None"
    using add_block_hashed[OF ne hashed that(1) assms(2)] by simp
  with m show ?thesis by simp
qed

theorem add_block_duplicate_appended_witness:
  "''c0ffee'' \<in> content_hash ` set (chain demo_ledger2) \<and>
   add_block demo_digest 2 demo_ledger2 ''c0ffee'' ''bob'' ''0a0b'' = Some (Inr True, demo_ledger3) \<and>
   length (chain demo_ledger3) = length (chain demo_ledger2) + 1 \<and>
   content_hash (last (chain demo_ledger3)) = ''c0ffee'' \<and>
   disk demo_ledger2 = Writable \<and>
   list_all (\<lambda>b. hash b \<noteq> None) (chain demo_ledger2)"
proof -
  have wr: "disk demo_ledger2 = Writable"
    by (simp add: demo_ledger2_eq)
  have dup: "''c0ffee'' \<in> content_hash ` set (chain demo_ledger2)"
    by (simp add: demo_ledger2_eq demo_block1_def)
  have run: "add_block demo_digest 2 demo_ledger2 ''c0ffee'' ''bob'' ''0a0b'' =
      Some (Inr True, demo_ledger3)"
    by (simp add: demo_add_block2 demo_ledger3_eq)
  have hashed: "\<forall>b\<in>set (chain demo_ledger2). hash b \<noteq> None"
    by (simp add: demo_ledger2_eq demo_genesis_def demo_block1_def)
  have all: "list_all (\<lambda>b. hash b \<noteq> None) (chain demo_ledger2)"
    using hashed by (simp add: list_all_iff)
  note t = add_block_duplicate_appended [OF dup run]
  show ?thesis
    by (intro conjI)
      (fact dup run wr all t [THEN conjunct2, THEN conjunct1]
        t [THEN conjunct2, THEN conjunct2, THEN conjunct1])+
qed

section \<open>Append is not all or nothing\<close>

lemma demo_readonly_eq:
  "demo_readonly =
     \<lparr>chain = [demo_genesis], difficulty = 2, ledger_file = snapshot [demo_genesis] True,
      disk = OpenFails ''[Errno 13] Permission denied'', printed = []\<rparr>"
  by (simp add: demo_readonly_def demo_ledger_eq init_def load_blockchain_def read_document_def
      block_of_dict_def snapshot_def demo_genesis_def Block_def calculate_hash_def to_dict_def
      demo_digest_def Let_def)

lemma demo_add_block_readonly:
  "add_block demo_digest 1 demo_readonly ''c0ffee'' ''alice'' ''not-a-signature'' =
     Some (Inl (OSError ''[Errno 13] Permission denied''),
           demo_readonly\<lparr>chain := [demo_genesis, demo_block1]\<rparr>)"
  by (simp add: demo_readonly_eq demo_genesis_def demo_block1_def meets_difficulty_2 demo_simps)

lemma save_blockchain_unwritable:
  assumes "disk st \<noteq> Writable" "is_valid_chain H (difficulty st) (chain st) = Inr v"
  shows "\<exists>x. fst (save_blockchain H st) = Inl (OSError x)"
proof (cases "disk st")
  case Writable
  with assms show ?thesis by simp
next
  case (MakedirsFails x)
  from save_blockchain_makedirs[OF this] show ?thesis by simp
next
  case (OpenFails x)
  from save_blockchain_open[OF this assms(2)] show ?thesis by simp
next
  case (DumpFails x t)
  from save_blockchain_dump[OF this assms(2)] show ?thesis by simp
qed

lemma commit_block_unwritable:
  assumes "validate_block H (difficulty st) m p" "disk st \<noteq> Writable"
    and "is_valid_chain H (difficulty st) (chain st @ [m]) = Inr v"
  shows "\<exists>x. fst (commit_block H st m p) = Inl (OSError x)"
proof -
  let ?st = "st\<lparr>chain := chain st @ [m]\<rparr>"
  from assms have "disk ?st \<noteq> Writable" "is_valid_chain H (difficulty ?st) (chain ?st) = Inr v"
    by simp_all
  from save_blockchain_unwritable[OF this] obtain x where
    "fst (save_blockchain H ?st) = Inl (OSError x)" ..
  with assms(1) show ?thesis
    by (cases "save_blockchain H ?st") (auto simp: commit_block_def)
qed

text \<open>
  C2, refuted as stated: a ledger is reopened from its file, which has become read-only,
  and \<open>add_block\<close> is called. The mined candidate validates and is appended to the chain
  in memory, but the snapshot is not persisted: \<open>open\<close> raises, the \<open>OSError\<close> leaves
  \<open>add_block\<close>, and the file still holds the old chain.
\<close>

theorem add_block_not_persisted_counterexample:
  "chain demo_readonly = [demo_genesis] \<and>
   ledger_file demo_readonly = snapshot [demo_genesis] True \<and>
   add_block demo_digest 1 demo_readonly ''c0ffee'' ''alice'' ''not-a-signature'' =
     Some (Inl (OSError ''[Errno 13] Permission denied''),
           demo_readonly\<lparr>chain := [demo_genesis, demo_block1]\<rparr>) \<and>
   validate_block demo_digest (difficulty demo_readonly) demo_block1 (last (chain demo_readonly)) \<and>
   ledger_file (demo_readonly\<lparr>chain := [demo_genesis, demo_block1]\<rparr>) =
     snapshot [demo_genesis] True"
proof -
  have "validate_block demo_digest (difficulty demo_readonly) demo_block1
      (last (chain demo_readonly))"
    by (simp add: validate_block_def demo_readonly_eq demo_genesis_def demo_block1_def
        meets_difficulty_2 calculate_hash_def to_dict_def demo_digest_def)
  moreover have "chain demo_readonly = [demo_genesis]"
    "ledger_file demo_readonly = snapshot [demo_genesis] True"
    "ledger_file (demo_readonly\<lparr>chain := [demo_genesis, demo_block1]\<rparr>) =
       snapshot [demo_genesis] True"
    by (simp_all add: demo_readonly_eq)
  ultimately show ?thesis using demo_add_block_readonly by (intro conjI)
qed

text \<open>
  C2, as the code has it. For every call of \<open>add_block\<close> on a non-empty chain that
  returns or raises: the mined candidate has passed validation and has been appended to the
  chain in memory, and \<open>False\<close> is not returned (the failure branch is never taken, and
  no validation error exists). \<open>True\<close> is returned only when the full chain snapshot has
  been written, and it is returned whenever the file can be written and every block carries
  its hash. When an exception leaves the call, the new chain is not persisted: the file is
  as it was, or truncated by a failed dump; the appended block stays in memory. When the
  file cannot be written, that exception is the \<open>OSError\<close> of the save.
\<close>

theorem add_block_commit_outcomes:
  assumes ne: "chain st \<noteq> []" and ret: "add_block H now st ch pk sg = Some (r, st')"
  shows "\<exists>m. validate_block H (difficulty st) m (last (chain st)) \<and>
           chain st' = chain st @ [m] \<and> r \<noteq> Inr False \<and>
           (r = Inr True \<longrightarrow>
              disk st = Writable \<and> (\<exists>v. ledger_file st' = snapshot (chain st @ [m]) v)) \<and>
           (disk st = Writable \<and> (\<forall>b\<in>set (chain st). hash b \<noteq> None) \<longrightarrow> r = Inr True) \<and>
           (\<forall>e. r = Inl e \<longrightarrow>
              ledger_file st' = ledger_file st \<or>
              (\<exists>x t. disk st = DumpFails x t \<and> ledger_file st' = Unreadable t)) \<and>
           (disk st \<noteq> Writable \<and> (\<forall>b\<in>set (chain st). hash b \<noteq> None) \<longrightarrow>
              (\<exists>x. r = Inl (OSError x)))"
proof -
  from add_block_returns[OF ne ret] obtain m where
    v: "validate_block H (difficulty st) m (last (chain st))"
    and h: "hash m \<noteq> None"
    and c: "commit_block H st m (last (chain st)) = (r, st')"
    by fastforce
  note res = commit_block_result[OF v c]
  have ok: "r = Inr True" if "disk st = Writable" "\<forall>b\<in>set (chain st). hash b \<noteq> None"
    using add_block_hashed[OF ne that(2,1) ret] by simp
  have bad: "\<exists>x. r = Inl (OSError x)"
    if wr: "disk st \<noteq> Writable" and hashed: "\<forall>b\<in>set (chain st). hash b \<noteq> None"
  proof -
    from hashed h have "\<forall>b\<in>set (chain st @ [m]). hash b \<noteq> None" by simp
    from is_valid_chain_hashed[OF this] obtain w where
      "is_valid_chain H (difficulty st) (chain st @ [m]) = Inr w" by blast
    from commit_block_unwritable[OF v wr this] c show ?thesis by simp
  qed
  show ?thesis
  proof (intro exI[of _ m] conjI impI allI)
    show "validate_block H (difficulty st) m (last (chain st))" by (rule v)
    show "chain st' = chain st @ [m]" using res by simp
    show "r \<noteq> Inr False" using res by auto
    show "disk st = Writable" if "r = Inr True" using res that by auto
    show "\<exists>v. ledger_file st' = snapshot (chain st @ [m]) v" if "r = Inr True"
      using res that by auto
    show "r = Inr True" if "disk st = Writable \<and> (\<forall>b\<in>set (chain st). hash b \<noteq> None)"
      using ok that by blast
    show "ledger_file st' = ledger_file st \<or>
          (\<exists>x t. disk st = DumpFails x t \<and> ledger_file st' = Unreadable t)" if "r = Inl e" for e
      using res that by auto
    show "\<exists>x. r = Inl (OSError x)"
      if "disk st \<noteq> Writable \<and> (\<forall>b\<in>set (chain st). hash b \<noteq> None)"
      using bad that by blast
  qed
qed

theorem add_block_commit_outcomes_witness:
  "chain demo_ledger \<noteq> [] \<and>
   add_block demo_digest 1 demo_ledger ''c0ffee'' ''alice'' ''not-a-signature'' =
     Some (Inr True, demo_ledger2) \<and>
   disk demo_ledger = Writable \<and>
   list_all (\<lambda>b. hash b \<noteq> None) (chain demo_ledger) \<and>
   (\<exists>m. validate_block demo_digest (difficulty demo_ledger) m (last (chain demo_ledger)) \<and>
        chain demo_ledger2 = chain demo_ledger @ [m] \<and>
        (\<exists>v. ledger_file demo_ledger2 = snapshot (chain demo_ledger @ [m]) v)) \<and>
   chain demo_readonly \<noteq> [] \<and>
   add_block demo_digest 1 demo_readonly ''c0ffee'' ''alice'' ''not-a-signature'' =
     Some (Inl (OSError ''[Errno 13] Permission denied''),
           demo_readonly\<lparr>chain := [demo_genesis, demo_block1]\<rparr>) \<and>
   disk demo_readonly \<noteq> Writable \<and>
   list_all (\<lambda>b. hash b \<noteq> None) (chain demo_readonly) \<and>
   ledger_file (demo_readonly\<lparr>chain := [demo_genesis, demo_block1]\<rparr>) = ledger_file demo_readonly"
proof -
  have ne: "chain demo_ledger \<noteq> []" and wr: "disk demo_ledger = Writable"
    and hashed: "list_all (\<lambda>b. hash b \<noteq> None) (chain demo_ledger)"
    by (simp_all add: demo_ledger_eq demo_genesis_def)
  have run: "add_block demo_digest 1 demo_ledger ''c0ffee'' ''alice'' ''not-a-signature'' =
     Some (Inr True, demo_ledger2)"
    by (simp add: demo_add_block demo_ledger2_eq)
  from add_block_commit_outcomes [OF ne run]
  have good: "\<exists>m. validate_block demo_digest (difficulty demo_ledger) m (last (chain demo_ledger)) \<and>
        chain demo_ledger2 = chain demo_ledger @ [m] \<and>
        (\<exists>v. ledger_file demo_ledger2 = snapshot (chain demo_ledger @ [m]) v)"
    by blast
  have ne': "chain demo_readonly \<noteq> []" and wr': "disk demo_readonly \<noteq> Writable"
    and hashed': "list_all (\<lambda>b. hash b \<noteq> None) (chain demo_readonly)"
    and same: "ledger_file (demo_readonly\<lparr>chain := [demo_genesis, demo_block1]\<rparr>) =
       ledger_file demo_readonly"
    by (simp_all add: demo_readonly_eq demo_genesis_def)
  note run' = demo_add_block_readonly
  show ?thesis
    by (intro conjI) (fact ne wr hashed run good ne' wr' hashed' same run')+
qed

section \<open>Chain validation is tamper-evident\<close>

lemma create_genesis_block_save:
  "chain st = [] \<Longrightarrow>
   create_genesis_block H now st = save_blockchain H (st\<lparr>chain := [genesis_of H now]\<rparr>)"
  by (simp add: create_genesis_block_def genesis_of_def Let_def)

lemma create_genesis_block_empty:
  "chain st = [] \<Longrightarrow> disk st = Writable \<Longrightarrow>
   create_genesis_block H now st =
     (Inr (), st\<lparr>chain := [genesis_of H now],
                  ledger_file := snapshot [genesis_of H now] True\<rparr>)"
  by (simp add: create_genesis_block_save save_blockchain_writable is_valid_chain_def)

lemma create_genesis_block_unwritable:
  assumes "chain st = []" "disk st \<noteq> Writable"
  shows "\<exists>x st'. create_genesis_block H now st = (Inl (OSError x), st') \<and>
           chain st' = [genesis_of H now] \<and> difficulty st' = difficulty st \<and>
           printed st' = printed st \<and> disk st' = disk st"
proof -
  have v: "is_valid_chain H (difficulty (st\<lparr>chain := [genesis_of H now]\<rparr>))
             (chain (st\<lparr>chain := [genesis_of H now]\<rparr>)) = Inr True"
    by (simp add: is_valid_chain_def)
  show ?thesis
  proof (cases "disk st")
    case Writable
    with assms show ?thesis by simp
  next
    case (MakedirsFails x)
    then have "disk (st\<lparr>chain := [genesis_of H now]\<rparr>) = MakedirsFails x" by simp
    from save_blockchain_makedirs[OF this] assms(1) show ?thesis
      by (simp add: create_genesis_block_save)
  next
    case (OpenFails x)
    then have "disk (st\<lparr>chain := [genesis_of H now]\<rparr>) = OpenFails x" by simp
    from save_blockchain_open[OF this v] assms(1) show ?thesis
      by (simp add: create_genesis_block_save)
  next
    case (DumpFails x t)
    then have "disk (st\<lparr>chain := [genesis_of H now]\<rparr>) = DumpFails x t" by simp
    from save_blockchain_dump[OF this v] assms(1) show ?thesis
      by (simp add: create_genesis_block_save)
  qed
qed

lemma hash_genesis_of: "hash (genesis_of H now) = Some (calculate_hash H (genesis_of H now))"
  by (simp add: genesis_of_def Let_def)

lemma built_invariant:
  assumes "built H st"
  shows "chain st \<noteq> [] \<and> (\<forall>b\<in>set (chain st). hash b = Some (calculate_hash H b)) \<and>
         is_valid_chain H (difficulty st) (chain st) = Inr True"
  using assms
proof (induction rule: built.induct)
  case (genesis st now st')
  then have "save_blockchain H (st\<lparr>chain := [genesis_of H now]\<rparr>) = (Inr (), st')"
    by (simp add: create_genesis_block_save)
  from save_blockchain_result[OF this]
  have "chain st' = [genesis_of H now]" by simp
  then show ?case
    by (simp add: hash_genesis_of is_valid_chain_def)
next
  case (append st now ch pk sg st')
  then have ne: "chain st \<noteq> []"
    and stored: "\<forall>b\<in>set (chain st). hash b = Some (calculate_hash H b)"
    and ok: "is_valid_chain H (difficulty st) (chain st) = Inr True"
    by simp_all
  from stored have hashed: "\<forall>b\<in>set (chain st). hash b \<noteq> None" by simp
  from add_block_returns[OF ne append.hyps(2)] obtain m where
    v: "validate_block H (difficulty st) m (last (chain st))"
    and h: "hash m = Some (calculate_hash H m)"
    and c: "(Inr True, st') = commit_block H st m (last (chain st))"
    by fastforce
  have new: "is_valid_chain H (difficulty st) (chain st @ [m]) = Inr True"
    using v h ok by (simp add: is_valid_chain_append[OF ne])
  from commit_block_result[OF v c[symmetric]]
  have "chain st' = chain st @ [m]" "difficulty st' = difficulty st" by simp_all
  with stored h new show ?case by simp
qed

lemma valid_from_links:
  assumes "valid_from H d p rest = Inr True" "i < length rest"
  shows "validate_block H d (rest ! i) ((p # rest) ! i)"
  using assms
proof (induction rest arbitrary: p i)
  case Nil
  then show ?case by simp
next
  case (Cons x xs)
  from Cons.prems(1) have v: "validate_block H d x p" and rest: "valid_from H d x xs = Inr True"
    by (auto split: if_splits option.splits)
  show ?case
  proof (cases i)
    case 0
    with v show ?thesis by simp
  next
    case (Suc j)
    with Cons.prems(2) have "j < length xs" by simp
    from Cons.IH[OF rest this] Suc show ?thesis by simp
  qed
qed

lemma valid_from_mutated:
  assumes "i < length rest" "\<forall>b\<in>set rest. hash b \<noteq> None" "hash b' \<noteq> None"
    and "\<not> validate_block H d b' ((p # rest) ! i) \<or> hash b' \<noteq> Some (calculate_hash H b')"
  shows "valid_from H d p (rest[i := b']) = Inr False"
  using assms
proof (induction rest arbitrary: p i)
  case Nil
  then show ?case by simp
next
  case (Cons x xs)
  show ?case
  proof (cases i)
    case 0
    with Cons.prems show ?thesis by auto
  next
    case (Suc j)
    with Cons.prems have "j < length xs" "\<forall>b\<in>set xs. hash b \<noteq> None"
      "\<not> validate_block H d b' ((x # xs) ! j) \<or> hash b' \<noteq> Some (calculate_hash H b')"
      by simp_all
    from Cons.IH[OF this(1,2) Cons.prems(3) this(3)]
    have "valid_from H d x (xs[j := b']) = Inr False" .
    with Suc Cons.prems(2) show ?thesis by auto
  qed
qed

lemma is_valid_chain_mutated:
  assumes "0 < i" "i < length c" "\<forall>b\<in>set c. hash b \<noteq> None" "hash b' \<noteq> None"
    and "\<not> validate_block H d b' (c ! (i - 1)) \<or> hash b' \<noteq> Some (calculate_hash H b')"
  shows "is_valid_chain H d (c[i := b']) = Inr False"
proof (cases c)
  case Nil
  with assms show ?thesis by simp
next
  case (Cons g rest)
  from assms(1) obtain j where j: "i = Suc j" by (cases i) auto
  with assms Cons have "j < length rest" "\<forall>b\<in>set rest. hash b \<noteq> None"
    "\<not> validate_block H d b' ((g # rest) ! j) \<or> hash b' \<noteq> Some (calculate_hash H b')"
    by simp_all
  from valid_from_mutated[OF this(1,2) assms(4) this(3)] Cons j show ?thesis
    by (simp add: is_valid_chain_def)
qed

lemma is_valid_chain_links:
  assumes "is_valid_chain H d c = Inr True" "0 < i" "i < length c"
  shows "validate_block H d (c ! i) (c ! (i - 1))"
proof (cases c)
  case Nil
  with assms show ?thesis by simp
next
  case (Cons g rest)
  from assms(2) obtain j where j: "i = Suc j" by (cases i) auto
  with assms Cons have "valid_from H d g rest = Inr True" "j < length rest"
    by (simp_all add: is_valid_chain_def)
  from valid_from_links[OF this] Cons j show ?thesis by simp
qed

lemma is_valid_chain_short: "length c \<le> 1 \<Longrightarrow> is_valid_chain H d c = Inr True"
  by (cases c) (auto simp: is_valid_chain_def)

lemma built_demo_ledger2: "built demo_digest demo_ledger2"
proof -
  have "create_genesis_block demo_digest 0 empty_ledger = (Inr (), demo_ledger)"
    by (simp add: demo_ledger_def init_def load_blockchain_def empty_ledger_def
        create_genesis_block_empty)
  then have "built demo_digest demo_ledger"
    by (rule built.genesis[rotated]) (simp add: empty_ledger_def)
  moreover have "add_block demo_digest 1 demo_ledger ''c0ffee'' ''alice'' ''not-a-signature'' =
     Some (Inr True, demo_ledger2)"
    by (simp add: demo_add_block demo_ledger2_eq)
  ultimately show ?thesis by (rule built.append)
qed

text \<open>
  C5: for every ledger built by creating the genesis block and then only by successful
  appends, \<open>is_valid_chain\<close> returns \<open>True\<close>. Changing the index or the previous hash
  of any non-genesis block to another value makes it return \<open>False\<close>; so does changing
  the content hash or the nonce, whenever the digest of the changed block differs from the
  digest of the original, that is, unless the change is a collision of the hash function.
  A chain of length at most 1 is always reported valid.
\<close>

theorem is_valid_chain_tamper_evident:
  assumes "built H st"
  shows "is_valid_chain H (difficulty st) (chain st) = Inr True \<and>
         (\<forall>i. 0 < i \<and> i < length (chain st) \<longrightarrow>
            (\<forall>n. n \<noteq> index (chain st ! i) \<longrightarrow>
               is_valid_chain H (difficulty st)
                 ((chain st)[i := (chain st ! i)\<lparr>index := n\<rparr>]) = Inr False) \<and>
            (\<forall>v. v \<noteq> previous_hash (chain st ! i) \<longrightarrow>
               is_valid_chain H (difficulty st)
                 ((chain st)[i := (chain st ! i)\<lparr>previous_hash := v\<rparr>]) = Inr False) \<and>
            (\<forall>v. calculate_hash H ((chain st ! i)\<lparr>content_hash := v\<rparr>) \<noteq>
                   calculate_hash H (chain st ! i) \<longrightarrow>
               is_valid_chain H (difficulty st)
                 ((chain st)[i := (chain st ! i)\<lparr>content_hash := v\<rparr>]) = Inr False) \<and>
            (\<forall>n. calculate_hash H ((chain st ! i)\<lparr>nonce := n\<rparr>) \<noteq>
                   calculate_hash H (chain st ! i) \<longrightarrow>
               is_valid_chain H (difficulty st)
                 ((chain st)[i := (chain st ! i)\<lparr>nonce := n\<rparr>]) = Inr False)) \<and>
         (\<forall>c. length c \<le> 1 \<longrightarrow> is_valid_chain H (difficulty st) c = Inr True)"
proof -
  let ?d = "difficulty st" and ?c = "chain st"
  from built_invariant[OF assms] have
    stored: "\<forall>b\<in>set ?c. hash b = Some (calculate_hash H b)"
    and ok: "is_valid_chain H ?d ?c = Inr True"
    by simp_all
  from stored have hashed: "\<forall>b\<in>set ?c. hash b \<noteq> None" by simp
  have mutated: "is_valid_chain H ?d (?c[i := b']) = Inr False"
    if i: "0 < i" "i < length ?c" and h: "hash b' = hash (?c ! i)"
      and bad: "\<not> validate_block H ?d b' (?c ! (i - 1)) \<or>
                calculate_hash H b' \<noteq> calculate_hash H (?c ! i)"
    for i b'
  proof -
    from stored i have "hash (?c ! i) = Some (calculate_hash H (?c ! i))" by simp
    with h bad have "hash b' \<noteq> None"
      "\<not> validate_block H ?d b' (?c ! (i - 1)) \<or> hash b' \<noteq> Some (calculate_hash H b')"
      by auto
    from is_valid_chain_mutated[OF i hashed this] show ?thesis .
  qed
  have A: "is_valid_chain H ?d (?c[i := (?c ! i)\<lparr>index := n\<rparr>]) = Inr False"
    if i: "0 < i" "i < length ?c" and n: "n \<noteq> index (?c ! i)" for i n
  proof -
    from is_valid_chain_links[OF ok i] n
    have "\<not> validate_block H ?d ((?c ! i)\<lparr>index := n\<rparr>) (?c ! (i - 1))"
      by (auto simp: validate_block_def split: if_splits)
    with mutated[OF i] show ?thesis by simp
  qed
  have B: "is_valid_chain H ?d (?c[i := (?c ! i)\<lparr>previous_hash := v\<rparr>]) = Inr False"
    if i: "0 < i" "i < length ?c" and v: "v \<noteq> previous_hash (?c ! i)" for i v
  proof -
    from is_valid_chain_links[OF ok i] v
    have "\<not> validate_block H ?d ((?c ! i)\<lparr>previous_hash := v\<rparr>) (?c ! (i - 1))"
      by (auto simp: validate_block_def split: if_splits)
    with mutated[OF i] show ?thesis by simp
  qed
  have C: "is_valid_chain H ?d (?c[i := (?c ! i)\<lparr>content_hash := v\<rparr>]) = Inr False"
    if "0 < i" "i < length ?c"
      and "calculate_hash H ((?c ! i)\<lparr>content_hash := v\<rparr>) \<noteq> calculate_hash H (?c ! i)" for i v
    using mutated[OF that(1,2)] that(3) by simp
  have D: "is_valid_chain H ?d (?c[i := (?c ! i)\<lparr>nonce := n\<rparr>]) = Inr False"
    if "0 < i" "i < length ?c"
      and "calculate_hash H ((?c ! i)\<lparr>nonce := n\<rparr>) \<noteq> calculate_hash H (?c ! i)" for i n
    using mutated[OF that(1,2)] that(3) by simp
  show ?thesis
  proof (intro conjI allI impI; (elim conjE)?)
    show "is_valid_chain H ?d ?c = Inr True" by (rule ok)
  next
    fix i n assume "0 < i" "i < length ?c" "n \<noteq> index (?c ! i)"
    then show "is_valid_chain H ?d (?c[i := (?c ! i)\<lparr>index := n\<rparr>]) = Inr False" by (rule A)
  next
    fix i v assume "0 < i" "i < length ?c" "v \<noteq> previous_hash (?c ! i)"
    then show "is_valid_chain H ?d (?c[i := (?c ! i)\<lparr>previous_hash := v\<rparr>]) = Inr False"
      by (rule B)
  next
    fix i v assume "0 < i" "i < length ?c"
      "calculate_hash H ((?c ! i)\<lparr>content_hash := v\<rparr>) \<noteq> calculate_hash H (?c ! i)"
    then show "is_valid_chain H ?d (?c[i := (?c ! i)\<lparr>content_hash := v\<rparr>]) = Inr False"
      by (rule C)
  next
    fix i n assume "0 < i" "i < length ?c"
      "calculate_hash H ((?c ! i)\<lparr>nonce := n\<rparr>) \<noteq> calculate_hash H (?c ! i)"
    then show "is_valid_chain H ?d (?c[i := (?c ! i)\<lparr>nonce := n\<rparr>]) = Inr False"
      by (rule D)
  next
    fix c :: "block list" assume "length c \<le> 1"
    then show "is_valid_chain H ?d c = Inr True" by (rule is_valid_chain_short)
  qed
qed

theorem is_valid_chain_tamper_evident_witness:
  "built demo_digest demo_ledger2 \<and>
   is_valid_chain demo_digest 2 (chain demo_ledger2) = Inr True \<and>
   (0::nat) < 1 \<and> 1 < length (chain demo_ledger2) \<and>
   7 \<noteq> index (chain demo_ledger2 ! 1) \<and>
   is_valid_chain demo_digest 2
     ((chain demo_ledger2)[1 := (chain demo_ledger2 ! 1)\<lparr>index := 7\<rparr>]) = Inr False \<and>
   ''ff'' \<noteq> previous_hash (chain demo_ledger2 ! 1) \<and>
   is_valid_chain demo_digest 2
     ((chain demo_ledger2)[1 := (chain demo_ledger2 ! 1)\<lparr>previous_hash := ''ff''\<rparr>]) = Inr False \<and>
   calculate_hash demo_digest ((chain demo_ledger2 ! 1)\<lparr>content_hash := ''decaf''\<rparr>) \<noteq>
     calculate_hash demo_digest (chain demo_ledger2 ! 1) \<and>
   is_valid_chain demo_digest 2
     ((chain demo_ledger2)[1 := (chain demo_ledger2 ! 1)\<lparr>content_hash := ''decaf''\<rparr>]) = Inr False \<and>
   calculate_hash demo_digest ((chain demo_ledger2 ! 1)\<lparr>nonce := 3\<rparr>) \<noteq>
     calculate_hash demo_digest (chain demo_ledger2 ! 1) \<and>
   is_valid_chain demo_digest 2
     ((chain demo_ledger2)[1 := (chain demo_ledger2 ! 1)\<lparr>nonce := 3\<rparr>]) = Inr False \<and>
   length [demo_genesis] \<le> 1 \<and>
   is_valid_chain demo_digest 2 [demo_genesis] = Inr True"
proof -
  have d: "difficulty demo_ledger2 = 2"
    and pos: "(0::nat) < 1" and len: "1 < length (chain demo_ledger2)"
    by (simp_all add: demo_ledger2_eq)
  have idx: "7 \<noteq> index (chain demo_ledger2 ! 1)"
    and prev: "''ff'' \<noteq> previous_hash (chain demo_ledger2 ! 1)"
    by (simp_all add: demo_ledger2_eq demo_block1_def)
  have content: "calculate_hash demo_digest ((chain demo_ledger2 ! 1)\<lparr>content_hash := ''decaf''\<rparr>) \<noteq>
     calculate_hash demo_digest (chain demo_ledger2 ! 1)"
    and nonce: "calculate_hash demo_digest ((chain demo_ledger2 ! 1)\<lparr>nonce := 3\<rparr>) \<noteq>
     calculate_hash demo_digest (chain demo_ledger2 ! 1)"
    by (simp_all add: demo_ledger2_eq demo_block1_def calculate_hash_def to_dict_def demo_digest_def)
  have short: "length [demo_genesis] \<le> 1" by simp
  note t = is_valid_chain_tamper_evident [OF built_demo_ledger2, unfolded d]
  note ok = t [THEN conjunct1]
  note g = t [THEN conjunct2, THEN conjunct2, THEN spec, THEN mp, OF short]
  note at1 = t [THEN conjunct2, THEN conjunct1, THEN spec, THEN mp, OF conjI, OF pos len]
  note m1 = at1 [THEN conjunct1, THEN spec, THEN mp, OF idx]
  note m2 = at1 [THEN conjunct2, THEN conjunct1, THEN spec, THEN mp, OF prev]
  note m3 = at1 [THEN conjunct2, THEN conjunct2, THEN conjunct1, THEN spec, THEN mp, OF content]
  note m4 = at1 [THEN conjunct2, THEN conjunct2, THEN conjunct2, THEN spec, THEN mp, OF nonce]
  show ?thesis
    by (intro conjI) (fact built_demo_ledger2 ok pos len idx m1 prev m2 content m3 nonce m4 short g)+
qed

section \<open>Loading a persisted ledger\<close>

lemma block_of_dict_incomplete:
  "incomplete e \<Longrightarrow> \<exists>k. block_of_dict H e = Inl (KeyError k)"
  by (auto simp: incomplete_def block_of_dict_def split: option.splits)

lemma block_of_dict_complete:
  "\<not> incomplete e \<Longrightarrow> \<exists>b. block_of_dict H e = Inr b"
  by (auto simp: incomplete_def block_of_dict_def Let_def split: option.splits)

lemma load_blocks_incomplete:
  "list_ex incomplete es \<Longrightarrow> \<exists>k. load_blocks H es = Inl (KeyError k)"
proof (induction es)
  case Nil
  then show ?case by simp
next
  case (Cons e es)
  show ?case
  proof (cases "incomplete e")
    case True
    from block_of_dict_incomplete[OF this, of H] show ?thesis by auto
  next
    case False
    from block_of_dict_complete[OF this, of H] obtain b where "block_of_dict H e = Inr b" ..
    moreover from False Cons.prems have "list_ex incomplete es" by simp
    from Cons.IH[OF this] obtain k where "load_blocks H es = Inl (KeyError k)" ..
    ultimately show ?thesis by simp
  qed
qed

lemma load_blocks_complete:
  "\<not> list_ex incomplete es \<Longrightarrow> \<exists>bs. load_blocks H es = Inr bs"
proof (induction es)
  case Nil
  then show ?case by simp
next
  case (Cons e es)
  then have "\<not> incomplete e" "\<not> list_ex incomplete es" by simp_all
  from block_of_dict_complete[OF this(1), of H] Cons.IH[OF this(2)] show ?case by auto
qed

lemma load_blockchain_unloadable:
  assumes "unloadable (ledger_file st)"
  shows "\<exists>e. load_blockchain H st = load_failed e st"
proof (cases "ledger_file st")
  case NoFile
  with assms show ?thesis by simp
next
  case (Unreadable m)
  then show ?thesis by (auto simp: load_blockchain_def)
next
  case (Document doc)
  show ?thesis
  proof (cases "doc_chain doc")
    case None
    with Document show ?thesis by (auto simp: load_blockchain_def read_document_def)
  next
    case (Some es)
    with assms Document have "list_ex incomplete es" by simp
    from load_blocks_incomplete[OF this, of H] obtain k where "load_blocks H es = Inl (KeyError k)" ..
    with Document Some show ?thesis by (auto simp: load_blockchain_def read_document_def)
  qed
qed

lemma load_blockchain_loadable:
  assumes "\<not> unloadable (ledger_file st)"
  shows "printed (load_blockchain H st) = printed st \<and>
         (\<forall>doc. ledger_file st = Document doc \<longrightarrow>
            read_document H doc = Inr (chain (load_blockchain H st)))"
proof (cases "ledger_file st")
  case NoFile
  then show ?thesis by (simp add: load_blockchain_def)
next
  case (Unreadable m)
  with assms show ?thesis by simp
next
  case (Document doc)
  with assms obtain es where es: "doc_chain doc = Some es" "\<not> list_ex incomplete es"
    by (cases "doc_chain doc") auto
  from load_blocks_complete[OF es(2), of H] obtain bs where "load_blocks H es = Inr bs" ..
  with Document es show ?thesis by (simp add: load_blockchain_def read_document_def)
qed

text \<open>
  C7, refuted as stated, twice. First, the file's path is a directory: reading it raises,
  the loader prints its line and empties the chain, and then saving the genesis block raises
  as well, so the \<open>OSError\<close> leaves the constructor. Second, a document whose second
  block has been edited loads without any notification: the chain keeps both blocks, it is
  not reset to the genesis block, and \<open>is_valid_chain\<close> says \<open>False\<close>.
\<close>

theorem init_load_counterexample:
  "init demo_digest (Unreadable ''[Errno 21] Is a directory'')
        (OpenFails ''[Errno 21] Is a directory'') 0 =
     (Inl (OSError ''[Errno 21] Is a directory''),
      \<lparr>chain = [genesis_of demo_digest 0], difficulty = 2,
       ledger_file = Unreadable ''[Errno 21] Is a directory'',
       disk = OpenFails ''[Errno 21] Is a directory'',
       printed = [''Error loading blockchain: [Errno 21] Is a directory'']\<rparr>) \<and>
   fst (init demo_digest demo_tampered_file Writable 0) = Inr () \<and>
   printed (snd (init demo_digest demo_tampered_file Writable 0)) = [] \<and>
   length (chain (snd (init demo_digest demo_tampered_file Writable 0))) = 2 \<and>
   is_valid_chain demo_digest 2 (chain (snd (init demo_digest demo_tampered_file Writable 0))) =
     Inr False"
proof -
  have a: "init demo_digest (Unreadable ''[Errno 21] Is a directory'')
        (OpenFails ''[Errno 21] Is a directory'') 0 =
     (Inl (OSError ''[Errno 21] Is a directory''),
      \<lparr>chain = [genesis_of demo_digest 0], difficulty = 2,
       ledger_file = Unreadable ''[Errno 21] Is a directory'',
       disk = OpenFails ''[Errno 21] Is a directory'',
       printed = [''Error loading blockchain: [Errno 21] Is a directory'']\<rparr>)"
    by (simp add: init_def load_blockchain_def load_failed_def create_genesis_block_save
        save_blockchain_def makedirs_def write_document_def is_valid_chain_def)
  have b: "init demo_digest demo_tampered_file Writable 0 =
     (Inr (),
      \<lparr>chain = [demo_genesis,
                 demo_block1\<lparr>content_hash := ''decaf'', nonce := 3,
                   hash := Some (''a7decafa7'' @ replicate 55 CHR ''0'')\<rparr>],
       difficulty = 2, ledger_file = demo_tampered_file, disk = Writable, printed = []\<rparr>)"
    by (simp add: init_def load_blockchain_def demo_tampered_file_def read_document_def
        block_of_dict_def demo_genesis_def demo_block1_def Block_def calculate_hash_def
        to_dict_def demo_digest_def Let_def)
  have c: "is_valid_chain demo_digest 2
      [demo_genesis,
       demo_block1\<lparr>content_hash := ''decaf'', nonce := 3,
         hash := Some (''a7decafa7'' @ replicate 55 CHR ''0'')\<rparr>] = Inr False"
    by (simp add: is_valid_chain_def validate_block_def demo_genesis_def demo_block1_def
        meets_difficulty_2 calculate_hash_def to_dict_def demo_digest_def)
  show ?thesis
    unfolding b using a c by simp
qed

text \<open>
  C7, as the code has it. For every file on which loading raises (it cannot be read or
  parsed, it has no \<open>chain\<close> array, or a block lacks a key the loader subscripts),
  \<open>load_blockchain\<close> catches the exception, empties the chain whatever it held and
  prints one line \<open>Error loading blockchain: ...\<close>; the constructor then creates the
  genesis block, and when the file can be written it returns with the genesis-only chain of
  length 1 saved; when the file cannot be written the \<open>OSError\<close> of the save leaves the
  constructor. A cold start with no file gives the same ledger and prints nothing. Every
  other document is loaded as it stands, and nothing is printed.
\<close>

theorem load_failure_fallback:
  "(unloadable f \<longrightarrow>
      (\<forall>st. ledger_file st = f \<longrightarrow>
         (\<exists>e. load_blockchain H st =
                st\<lparr>chain := [],
                   printed := printed st @ [''Error loading blockchain: '' @ str_of_error e]\<rparr>)) \<and>
      (\<exists>e. init H f Writable now =
            (Inr (), \<lparr>chain = [genesis_of H now], difficulty = 2,
                      ledger_file = snapshot [genesis_of H now] True, disk = Writable,
                      printed = [''Error loading blockchain: '' @ str_of_error e]\<rparr>)) \<and>
      (\<forall>dk. dk \<noteq> Writable \<longrightarrow>
         (\<exists>e x st. init H f dk now = (Inl (OSError x), st) \<and>
                   chain st = [genesis_of H now] \<and>
                   printed st = [''Error loading blockchain: '' @ str_of_error e]))) \<and>
   init H NoFile Writable now =
     (Inr (), \<lparr>chain = [genesis_of H now], difficulty = 2,
               ledger_file = snapshot [genesis_of H now] True, disk = Writable,
               printed = []\<rparr>) \<and>
   (\<not> unloadable f \<longrightarrow>
      (\<forall>st. ledger_file st = f \<longrightarrow>
         printed (load_blockchain H st) = printed st \<and>
         (\<forall>doc. f = Document doc \<longrightarrow>
            read_document H doc = Inr (chain (load_blockchain H st)))))"
proof (intro conjI impI allI)
  fix st :: blockchain assume "unloadable f" "ledger_file st = f"
  then have "unloadable (ledger_file st)" by simp
  from load_blockchain_unloadable[OF this, of H]
  show "\<exists>e. load_blockchain H st =
      st\<lparr>chain := [],
         printed := printed st @ [''Error loading blockchain: '' @ str_of_error e]\<rparr>"
    by (simp add: load_failed_def)
next
  assume u: "unloadable f"
  let ?st = "\<lparr>chain = [], difficulty = 2, ledger_file = f, disk = Writable, printed = []\<rparr>"
  from u have "unloadable (ledger_file ?st)" by simp
  from load_blockchain_unloadable[OF this, of H] obtain e where
    "load_blockchain H ?st = load_failed e ?st" ..
  then have "init H f Writable now =
      (Inr (), \<lparr>chain = [genesis_of H now], difficulty = 2,
                ledger_file = snapshot [genesis_of H now] True, disk = Writable,
                printed = [''Error loading blockchain: '' @ str_of_error e]\<rparr>)"
    by (simp add: init_def load_failed_def create_genesis_block_empty)
  then show "\<exists>e. init H f Writable now =
      (Inr (), \<lparr>chain = [genesis_of H now], difficulty = 2,
                ledger_file = snapshot [genesis_of H now] True, disk = Writable,
                printed = [''Error loading blockchain: '' @ str_of_error e]\<rparr>)" ..
next
  fix dk :: disk assume u: "unloadable f" and dk: "dk \<noteq> Writable"
  let ?st = "\<lparr>chain = [], difficulty = 2, ledger_file = f, disk = dk, printed = []\<rparr>"
  from u have "unloadable (ledger_file ?st)" by simp
  from load_blockchain_unloadable[OF this, of H] obtain e where
    l: "load_blockchain H ?st = load_failed e ?st" ..
  have "chain (load_failed e ?st) = []" "disk (load_failed e ?st) \<noteq> Writable"
    using dk by (simp_all add: load_failed_def)
  from create_genesis_block_unwritable[OF this, of H now] obtain x st' where
    "create_genesis_block H now (load_failed e ?st) = (Inl (OSError x), st')"
    "chain st' = [genesis_of H now]" "printed st' = printed (load_failed e ?st)"
    by blast
  with l have "init H f dk now = (Inl (OSError x), st') \<and> chain st' = [genesis_of H now] \<and>
      printed st' = [''Error loading blockchain: '' @ str_of_error e]"
    by (simp add: init_def load_failed_def)
  then show "\<exists>e x st. init H f dk now = (Inl (OSError x), st) \<and>
      chain st = [genesis_of H now] \<and>
      printed st = [''Error loading blockchain: '' @ str_of_error e]"
    by blast
next
  show "init H NoFile Writable now =
     (Inr (), \<lparr>chain = [genesis_of H now], difficulty = 2,
               ledger_file = snapshot [genesis_of H now] True, disk = Writable,
               printed = []\<rparr>)"
    by (simp add: init_def load_blockchain_def create_genesis_block_empty)
next
  fix st :: blockchain assume "\<not> unloadable f" "ledger_file st = f"
  then have n: "\<not> unloadable (ledger_file st)" by simp
  from load_blockchain_loadable[OF n, of H]
  show "printed (load_blockchain H st) = printed st" by simp
next
  fix st :: blockchain and doc assume "\<not> unloadable f" "ledger_file st = f" "f = Document doc"
  then have n: "\<not> unloadable (ledger_file st)" and d: "ledger_file st = Document doc" by simp_all
  from load_blockchain_loadable[OF n, of H] d
  show "read_document H doc = Inr (chain (load_blockchain H st))" by simp
qed

theorem load_failure_fallback_witness:
  "unloadable demo_broken_file \<and>
   ledger_file (demo_ledger2\<lparr>ledger_file := demo_broken_file\<rparr>) = demo_broken_file \<and>
   chain (demo_ledger2\<lparr>ledger_file := demo_broken_file\<rparr>) = [demo_genesis, demo_block1] \<and>
   load_blockchain demo_digest (demo_ledger2\<lparr>ledger_file := demo_broken_file\<rparr>) =
     demo_ledger2\<lparr>ledger_file := demo_broken_file, chain := [],
        printed := [''Error loading blockchain: '' @ str_of_error (KeyError ''signature'')]\<rparr> \<and>
   (\<exists>e. init demo_digest demo_broken_file Writable 0 =
         (Inr (), \<lparr>chain = [genesis_of demo_digest 0], difficulty = 2,
                   ledger_file = snapshot [genesis_of demo_digest 0] True, disk = Writable,
                   printed = [''Error loading blockchain: '' @ str_of_error e]\<rparr>)) \<and>
   OpenFails ''[Errno 13] Permission denied'' \<noteq> Writable \<and>
   (\<exists>e x st. init demo_digest demo_broken_file (OpenFails ''[Errno 13] Permission denied'') 0 =
               (Inl (OSError x), st) \<and>
             chain st = [genesis_of demo_digest 0] \<and>
             printed st = [''Error loading blockchain: '' @ str_of_error e]) \<and>
   init demo_digest NoFile Writable 0 =
     (Inr (), \<lparr>chain = [genesis_of demo_digest 0], difficulty = 2,
               ledger_file = snapshot [genesis_of demo_digest 0] True, disk = Writable,
               printed = []\<rparr>) \<and>
   \<not> unloadable demo_tampered_file \<and>
   ledger_file (empty_ledger\<lparr>ledger_file := demo_tampered_file\<rparr>) = demo_tampered_file \<and>
   printed (load_blockchain demo_digest (empty_ledger\<lparr>ledger_file := demo_tampered_file\<rparr>)) =
     printed (empty_ledger\<lparr>ledger_file := demo_tampered_file\<rparr>)"
proof -
  have u: "unloadable demo_broken_file"
    by (simp add: demo_broken_file_def incomplete_def to_dict_def)
  have f1: "ledger_file (demo_ledger2\<lparr>ledger_file := demo_broken_file\<rparr>) = demo_broken_file"
    by simp
  have c1: "chain (demo_ledger2\<lparr>ledger_file := demo_broken_file\<rparr>) = [demo_genesis, demo_block1]"
    by (simp add: demo_ledger2_eq)
  have l1: "load_blockchain demo_digest (demo_ledger2\<lparr>ledger_file := demo_broken_file\<rparr>) =
     demo_ledger2\<lparr>ledger_file := demo_broken_file, chain := [],
        printed := [''Error loading blockchain: '' @ str_of_error (KeyError ''signature'')]\<rparr>"
    by (simp add: load_blockchain_def load_failed_def demo_broken_file_def read_document_def
        block_of_dict_def to_dict_def Let_def demo_ledger2_eq)
  have dk: "OpenFails ''[Errno 13] Permission denied'' \<noteq> Writable" by simp
  have n: "\<not> unloadable demo_tampered_file"
    by (simp add: demo_tampered_file_def incomplete_def to_dict_def)
  have f2: "ledger_file (empty_ledger\<lparr>ledger_file := demo_tampered_file\<rparr>) = demo_tampered_file"
    by simp
  note t = load_failure_fallback [where f = demo_broken_file and H = demo_digest and now = 0]
  note t1 = t [THEN conjunct1, THEN mp, OF u]
  note i1 = t1 [THEN conjunct2, THEN conjunct1]
  note i2 = t1 [THEN conjunct2, THEN conjunct2, THEN spec, THEN mp, OF dk]
  note cold = t [THEN conjunct2, THEN conjunct1]
  note s = load_failure_fallback [where f = demo_tampered_file and H = demo_digest and now = 0,
      THEN conjunct2, THEN conjunct2, THEN mp, OF n, THEN spec, THEN mp, OF f2, THEN conjunct1]
  show ?thesis
    by (intro conjI) (fact u f1 c1 l1 i1 dk i2 cold n f2 s)+
qed

lemma block_of_dict_hash:
  "block_of_dict H e = Inr b \<Longrightarrow> hash b = Some (calculate_hash H b)"
  by (auto simp: block_of_dict_def Let_def split: option.splits)

lemma load_blocks_hash:
  "load_blocks H es = Inr bs \<Longrightarrow> \<forall>b\<in>set bs. hash b = Some (calculate_hash H b)"
proof (induction es arbitrary: bs)
  case Nil
  then show ?case by simp
next
  case (Cons e es)
  then show ?case
    by (auto split: sum.splits dest: block_of_dict_hash)
qed

lemma valid_from_stored:
  "\<forall>b\<in>set rest. hash b = Some (calculate_hash H b) \<Longrightarrow>
     valid_from H d p rest = Inr (linked_from H d p rest)"
  by (induction rest arbitrary: p) auto

lemma is_valid_chain_stored:
  "\<forall>b\<in>set c. hash b = Some (calculate_hash H b) \<Longrightarrow>
     is_valid_chain H d c = Inr (links_valid H d c)"
  by (cases c) (simp_all add: is_valid_chain_def links_valid_def valid_from_stored)

text \<open>
  C10: immediately after a load that succeeds, the chain is what the document holds and
  every block's stored hash equals its recomputed hash, because loading overwrites it.
  Hence \<open>is_valid_chain\<close> on the freshly loaded chain decides exactly what the checks of
  \<open>validate_block\<close> on adjacent blocks decide: its comparison of stored and recomputed
  hash never fails.
\<close>

theorem load_blockchain_recomputes_hashes:
  assumes "ledger_file st = Document doc" and "read_document H doc = Inr bs"
  shows "chain (load_blockchain H st) = bs \<and>
         (\<forall>b\<in>set (chain (load_blockchain H st)). hash b = Some (calculate_hash H b)) \<and>
         (\<forall>d. is_valid_chain H d (chain (load_blockchain H st)) =
               Inr (links_valid H d (chain (load_blockchain H st))))"
proof -
  from assms have c: "chain (load_blockchain H st) = bs"
    by (simp add: load_blockchain_def)
  from assms(2) have "\<forall>b\<in>set bs. hash b = Some (calculate_hash H b)"
    by (auto simp: read_document_def split: option.splits dest: load_blocks_hash)
  with c is_valid_chain_stored[of bs H] show ?thesis by simp
qed

theorem load_blockchain_recomputes_hashes_witness:
  "ledger_file (empty_ledger\<lparr>ledger_file := ledger_file demo_ledger2\<rparr>) =
     Document \<lparr>doc_chain = Some (map to_dict [demo_genesis, demo_block1]),
               doc_length = Some 2, doc_valid = Some True\<rparr> \<and>
   read_document demo_digest
     \<lparr>doc_chain = Some (map to_dict [demo_genesis, demo_block1]),
      doc_length = Some 2, doc_valid = Some True\<rparr> = Inr [demo_genesis, demo_block1] \<and>
   chain (load_blockchain demo_digest (empty_ledger\<lparr>ledger_file := ledger_file demo_ledger2\<rparr>)) =
     [demo_genesis, demo_block1] \<and>
   list_all (\<lambda>b. hash b = Some (calculate_hash demo_digest b)) [demo_genesis, demo_block1] \<and>
   is_valid_chain demo_digest 2 [demo_genesis, demo_block1] =
     Inr (links_valid demo_digest 2 [demo_genesis, demo_block1])"
proof -
  let ?doc = "\<lparr>doc_chain = Some (map to_dict [demo_genesis, demo_block1]),
               doc_length = Some 2, doc_valid = Some True\<rparr>"
  let ?st = "empty_ledger\<lparr>ledger_file := ledger_file demo_ledger2\<rparr>"
  have at_file: "ledger_file ?st = Document ?doc"
    by (simp add: demo_ledger2_eq snapshot_def)
  have parsed: "read_document demo_digest ?doc = Inr [demo_genesis, demo_block1]"
    by (simp add: read_document_def block_of_dict_def to_dict_def Let_def Block_def
        calculate_hash_def demo_digest_def demo_genesis_def demo_block1_def)
  note t = load_blockchain_recomputes_hashes [OF at_file parsed]
  note c = t [THEN conjunct1]
  note h = t [THEN conjunct2, THEN conjunct1, unfolded c, folded list_all_iff]
  note v = t [THEN conjunct2, THEN conjunct2, THEN spec, of 2, unfolded c]
  show ?thesis
    by (intro conjI) (fact at_file parsed c h v)+
qed

section \<open>Category evaluation\<close>




end
